theory Spec2Isabelle
  imports Complex_Main "HOL-Library.Sublist"
begin

section \<open>Change objects and the diff functions\<close>

text \<open>
  The component reads three fields of every change object returned by the diff
  function: \<^verbatim>\<open>part.value\<close>, \<^verbatim>\<open>part.added\<close> and \<^verbatim>\<open>part.removed\<close>.  The field
  \<^verbatim>\<open>value\<close> is written \<open>val\<close> here.
\<close>

record Change =
  val :: string
  added :: bool
  removed :: bool

datatype diffMode = words | chars

datatype error = TypeError

text \<open>
  A text prop at run time: \<open>Some s\<close> is the string \<open>s\<close>, \<open>None\<close> stands for
  \<^verbatim>\<open>null\<close> or \<^verbatim>\<open>undefined\<close>.
\<close>

type_synonym jsstring = "string option"

text \<open>
  \<^verbatim>\<open>diffWords\<close> and \<^verbatim>\<open>diffChars\<close> are imported from the package \<^verbatim>\<open>diff\<close>; the
  component is modelled over any pair of such functions.
\<close>

record diff_lib =
  diffWords :: "jsstring \<Rightarrow> jsstring \<Rightarrow> error + Change list"
  diffChars :: "jsstring \<Rightarrow> jsstring \<Rightarrow> error + Change list"

subsection \<open>The diff computation of the specification\<close>

datatype kind = Unchanged | Added | Removed

text \<open>
  Modelled from the spec: the classes of characters behind the whitespace- and
  punctuation-aware boundaries of word mode, which the spec does not spell out.
  Blank, tab, line feed and carriage return are whitespace; letters, digits and the
  underscore are word characters; every other character is punctuation.
\<close>

datatype cclass = WordChar | Space | Punct

definition cclass_of :: "char \<Rightarrow> cclass" where
  "cclass_of c =
     (let n = (of_char c :: nat) in
      if n = 32 \<or> n = 9 \<or> n = 10 \<or> n = 13 then Space
      else if (48 \<le> n \<and> n \<le> 57) \<or> (65 \<le> n \<and> n \<le> 90) \<or> n = 95 \<or> (97 \<le> n \<and> n \<le> 122)
      then WordChar
      else Punct)"

text \<open>
  Modelled from the spec: the tokenizer of the package \<^verbatim>\<open>diff\<close> is not part of the
  sources.  Word granularity with whitespace- and punctuation-aware boundaries: a
  token is a maximal run of word characters, a maximal run of whitespace, or one
  punctuation character.
\<close>

fun tokenize_words :: "string \<Rightarrow> string list" where
  "tokenize_words [] = []"
| "tokenize_words (c # cs) =
     (case tokenize_words cs of
        [] \<Rightarrow> [[c]]
      | t # ts \<Rightarrow>
          (case t of
             [] \<Rightarrow> [c] # ts
           | d # _ \<Rightarrow>
               if cclass_of c = cclass_of d \<and> cclass_of c \<noteq> Punct then (c # t) # ts
               else [c] # t # ts))"

text \<open>Modelled from the spec: character granularity, one token for each character.\<close>

definition tokenize_chars :: "string \<Rightarrow> string list" where
  "tokenize_chars s = map (\<lambda>c. [c]) s"

definition tokenize :: "diffMode \<Rightarrow> string \<Rightarrow> string list" where
  "tokenize mode s = (case mode of chars \<Rightarrow> tokenize_chars s | words \<Rightarrow> tokenize_words s)"

text \<open>
  Modelled from the spec: the length of a longest common subsequence of two token
  lists, which the diff below follows.
\<close>

fun lcs_len :: "'a list \<Rightarrow> 'a list \<Rightarrow> nat" where
  "lcs_len [] ys = 0"
| "lcs_len (x # xs) [] = 0"
| "lcs_len (x # xs) (y # ys) =
     (if x = y then Suc (lcs_len xs ys)
      else max (lcs_len xs (y # ys)) (lcs_len (x # xs) ys))"

text \<open>
  Modelled from the spec: the diff algorithm of the package \<^verbatim>\<open>diff\<close> is not part of
  the sources.  A longest-common-subsequence diff of two token lists: a common
  head is kept, otherwise the head whose removal keeps the longer common
  subsequence is dropped from the old list or inserted from the new one.
\<close>

fun diff_tokens :: "'a list \<Rightarrow> 'a list \<Rightarrow> (kind \<times> 'a) list" where
  "diff_tokens [] ys = map (Pair Added) ys"
| "diff_tokens (x # xs) [] = map (Pair Removed) (x # xs)"
| "diff_tokens (x # xs) (y # ys) =
     (if x = y then (Unchanged, x) # diff_tokens xs ys
      else if lcs_len (x # xs) ys \<le> lcs_len xs (y # ys)
      then (Removed, x) # diff_tokens xs (y # ys)
      else (Added, y) # diff_tokens (x # xs) ys)"

text \<open>
  Modelled from the spec: adjacent tokens of one kind form one segment, so no two
  adjacent segments have the same kind.
\<close>

fun merge_runs :: "(kind \<times> string) list \<Rightarrow> (kind \<times> string) list" where
  "merge_runs [] = []"
| "merge_runs ((k, v) # rest) =
     (case merge_runs rest of
        [] \<Rightarrow> [(k, v)]
      | (k', v') # ms \<Rightarrow> if k = k' then (k, v @ v') # ms else (k, v) # (k', v') # ms)"

text \<open>No two adjacent segments have the same kind.\<close>

fun alternating :: "(kind \<times> string) list \<Rightarrow> bool" where
  "alternating [] = True"
| "alternating [p] = True"
| "alternating (p # q # rest) = (if fst p = fst q then False else alternating (q # rest))"

definition mk_change :: "kind \<times> string \<Rightarrow> Change" where
  "mk_change p = \<lparr>val = snd p, added = (fst p = Added), removed = (fst p = Removed)\<rparr>"

text \<open>
  Modelled from the spec: \<^verbatim>\<open>compute(oldText, newText, mode)\<close> of section 4.1, the
  behaviour the specification gives to \<^verbatim>\<open>diffWords\<close> and \<^verbatim>\<open>diffChars\<close>.
\<close>

definition compute :: "string \<Rightarrow> string \<Rightarrow> diffMode \<Rightarrow> Change list" where
  "compute old new mode =
     map mk_change (merge_runs (diff_tokens (tokenize mode old) (tokenize mode new)))"

text \<open>
  Modelled from the spec: the two imported functions as the specification describes
  them on strings.  A tokenizer reads its operand as a string, which raises
  \<^verbatim>\<open>TypeError\<close> in JavaScript when the operand is \<^verbatim>\<open>null\<close> or \<^verbatim>\<open>undefined\<close>.
\<close>

definition spec_diff :: "diffMode \<Rightarrow> jsstring \<Rightarrow> jsstring \<Rightarrow> error + Change list" where
  "spec_diff mode a b =
     (case a of
        None \<Rightarrow> Inl TypeError
      | Some old \<Rightarrow> (case b of None \<Rightarrow> Inl TypeError | Some new \<Rightarrow> Inr (compute old new mode)))"

definition spec_lib :: diff_lib where
  "spec_lib = \<lparr>diffWords = spec_diff words, diffChars = spec_diff chars\<rparr>"

text \<open>The texts a segment sequence stands for.\<close>

definition old_of :: "Change list \<Rightarrow> string" where
  "old_of cs = concat (map val (filter (\<lambda>p. \<not> added p) cs))"

definition new_of :: "Change list \<Rightarrow> string" where
  "new_of cs = concat (map val (filter (\<lambda>p. \<not> removed p) cs))"

section \<open>Rendering\<close>

text \<open>
  The elements \<^verbatim>\<open>DiffText\<close> returns for the parts of a diff.  The \<^verbatim>\<open>onComplete\<close> prop
  of a \<^verbatim>\<open>FadeOutText\<close> element is the closure \<^verbatim>\<open>() => handleRemoveComplete(index)\<close>; it
  is represented by the index it binds.  A \<^verbatim>\<open>span\<close> carries its key, its style
  properties and its text.
\<close>

datatype node =
    TypewriterText_el string string string string
  | FadeOutText_el string string nat
  | span_el string "(string \<times> string) list" string

record element =
  el_className :: string
  el_children :: "node option list"

record DiffTextProps =
  oldText :: jsstring
  newText :: jsstring
  diffMode :: "diffMode option"
  showRemoved :: "bool option"
  animateChanges :: "bool option"
  className :: "string option"

definition default :: "'a \<Rightarrow> 'a option \<Rightarrow> 'a" where
  "default d x = (case x of None \<Rightarrow> d | Some v \<Rightarrow> v)"

fun string_of_nat :: "nat \<Rightarrow> string" where
  "string_of_nat n =
     (if n < 10 then [char_of (48 + n)]
      else string_of_nat (n div 10) @ [char_of (48 + n mod 10)])"

declare string_of_nat.simps [simp del]

definition renderPart :: "bool \<Rightarrow> bool \<Rightarrow> nat set \<Rightarrow> Change \<Rightarrow> nat \<Rightarrow> node option" where
  "renderPart showRemoved' animateChanges' removedParts' part index =
     (if removed part \<and> index \<in> removedParts' then None
      else if added part then
        (if animateChanges'
         then Some (TypewriterText_el (''added-'' @ string_of_nat index) (val part)
                      ''rgb(34, 197, 94)'' ''rgba(34, 197, 94, 0.15)'')
         else Some (span_el (''added-'' @ string_of_nat index)
                      [(''backgroundColor'', ''rgba(34, 197, 94, 0.15)''),
                       (''color'', ''rgb(34, 197, 94)''),
                       (''borderRadius'', ''2px''),
                       (''padding'', ''0 2px'')]
                      (val part)))
      else if removed part then
        (if \<not> showRemoved' then None
         else if animateChanges'
         then Some (FadeOutText_el (''removed-'' @ string_of_nat index) (val part) index)
         else Some (span_el (''removed-'' @ string_of_nat index)
                      [(''backgroundColor'', ''rgba(239, 68, 68, 0.15)''),
                       (''color'', ''rgba(239, 68, 68, 0.7)''),
                       (''borderRadius'', ''2px''),
                       (''padding'', ''0 2px''),
                       (''textDecoration'', ''line-through'')]
                      (val part)))
      else Some (span_el (''unchanged-'' @ string_of_nat index) [] (val part)))"

text \<open>\<^verbatim>\<open>changes.map((part, index) => ...)\<close>, the indices counted from \<open>i\<close>.\<close>

fun renderParts :: "bool \<Rightarrow> bool \<Rightarrow> nat set \<Rightarrow> nat \<Rightarrow> Change list \<Rightarrow> node option list" where
  "renderParts sr an rp i [] = []"
| "renderParts sr an rp i (part # changes) =
     renderPart sr an rp part i # renderParts sr an rp (Suc i) changes"

definition diffFunction :: "diff_lib \<Rightarrow> diffMode \<Rightarrow> jsstring \<Rightarrow> jsstring \<Rightarrow> error + Change list" where
  "diffFunction lib mode = (if mode = chars then diffChars lib else diffWords lib)"

definition DiffText :: "diff_lib \<Rightarrow> DiffTextProps \<Rightarrow> nat set \<Rightarrow> error + element" where
  "DiffText lib props removedParts' =
     (case diffFunction lib (default words (diffMode props)) (oldText props) (newText props) of
        Inl e \<Rightarrow> Inl e
      | Inr changes \<Rightarrow>
          Inr \<lparr>el_className = default '''' (className props),
               el_children =
                 renderParts (default True (showRemoved props)) (default True (animateChanges props))
                   removedParts' 0 changes\<rparr>)"

definition handleRemoveComplete :: "nat \<Rightarrow> nat set \<Rightarrow> nat set" where
  "handleRemoveComplete index prev = insert index prev"

section \<open>JavaScript numbers\<close>

text \<open>
  A JavaScript number is an IEEE double.  The doubles are taken as the reals they
  stand for, and an operation gives the double nearest to its exact result, ties to
  the even significand: the exact result is written in units of \<open>2 ^ k\<close>, where
  \<open>k\<close> leaves 53 bits to the significand and is at least \<open>- 1074\<close>, and the number of
  units is rounded.  No value of this program comes near the largest double.
\<close>

definition round_even :: "real \<Rightarrow> int" where
  "round_even x =
     (let f = \<lfloor>x\<rfloor> in
      if x - of_int f < 1/2 then f
      else if 1/2 < x - of_int f then f + 1
      else if even f then f else f + 1)"

definition ulp_exponent :: "real \<Rightarrow> int" where
  "ulp_exponent x = max (\<lfloor>log 2 x\<rfloor> - 52) (- 1074)"

definition double_pos :: "real \<Rightarrow> real" where
  "double_pos x =
     of_int (round_even (x / 2 powr of_int (ulp_exponent x))) * 2 powr of_int (ulp_exponent x)"

definition double :: "real \<Rightarrow> real" where
  "double x = (if x = 0 then 0 else if x < 0 then - double_pos (- x) else double_pos x)"

text \<open>\<^verbatim>\<open>x * y\<close> and \<^verbatim>\<open>x / y\<close> on doubles, and \<^verbatim>\<open>Math.round\<close>.\<close>

definition js_times :: "real \<Rightarrow> real \<Rightarrow> real" where
  "js_times x y = double (x * y)"

definition js_divide :: "real \<Rightarrow> real \<Rightarrow> real" where
  "js_divide x y = double (x / y)"

definition js_round :: "real \<Rightarrow> int" where
  "js_round x = \<lfloor>x + 1/2\<rfloor>"


section \<open>Animations\<close>

text \<open>
  Modelled from the spec: \<^verbatim>\<open>animate\<close> of the package \<^verbatim>\<open>motion\<close> is not part of the
  sources.  An animation is a timeline: it starts when \<^verbatim>\<open>animate\<close> is called, waits
  for its delay, runs for its duration and then completes once; \<^verbatim>\<open>stop\<close> cancels it,
  and a stopped animation neither updates nor completes.  The delay and the
  duration are the doubles handed to \<^verbatim>\<open>animate\<close>, in seconds; the time since the call
  is a real number of seconds, and the clock only runs forwards.
\<close>

record animation =
  delay :: real
  duration :: real
  elapsed :: real
  stopped :: bool

text \<open>
  Modelled from the spec: \<^verbatim>\<open>animate(value, target, {duration, delay, ...})\<close> starts a
  timeline at time 0.
\<close>

definition animate :: "real \<Rightarrow> real \<Rightarrow> animation" where
  "animate duration' delay' = \<lparr>delay = delay', duration = duration', elapsed = 0, stopped = False\<rparr>"

text \<open>Modelled from the spec: \<^verbatim>\<open>stop()\<close> of the playback controls cancels the animation.\<close>

definition stop :: "animation \<Rightarrow> animation" where
  "stop a = a\<lparr>stopped := True\<rparr>"

text \<open>
  Modelled from the spec, in the arithmetic of the package: it counts in
  milliseconds, a number of seconds times 1000.
\<close>

definition milliseconds :: "real \<Rightarrow> real" where
  "milliseconds s = js_times s 1000"

text \<open>
  Modelled from the spec, in the arithmetic of the package: the time an animation
  has run is the time since the call of \<^verbatim>\<open>animate\<close>, rounded to a whole millisecond,
  less the delay.
\<close>

definition currentTime :: "animation \<Rightarrow> real" where
  "currentTime a = of_int (js_round (1000 * elapsed a)) - milliseconds (delay a)"

text \<open>
  Modelled from the spec: an animation has finished when it has run for its
  duration; it plays as long as it is neither stopped nor finished.
\<close>

definition finished :: "animation \<Rightarrow> bool" where
  "finished a = (milliseconds (duration a) \<le> currentTime a)"

definition playing :: "animation \<Rightarrow> bool" where
  "playing a = (if stopped a then False else if finished a then False else True)"

text \<open>
  Modelled from the spec: a frame that comes \<open>dt\<close> seconds after the previous one moves
  every animation on that is not stopped; time does not run backwards.
\<close>

definition advance :: "real \<Rightarrow> animation \<Rightarrow> animation" where
  "advance dt a = (if stopped a then a else a\<lparr>elapsed := elapsed a + max 0 dt\<rparr>)"

text \<open>
  Modelled from the spec: \<^verbatim>\<open>onComplete\<close> is called once, in the frame in which a playing
  animation finishes.
\<close>

definition completes :: "real \<Rightarrow> animation \<Rightarrow> bool" where
  "completes dt a = (if playing a then finished (advance dt a) else False)"

text \<open>
  Modelled from the spec: the fraction of the duration that has run, 0 during the
  delay and 1 from the end on.
\<close>

definition progress :: "animation \<Rightarrow> real" where
  "progress a =
     (if currentTime a \<le> 0 then 0
      else if finished a then 1
      else js_divide (currentTime a) (milliseconds (duration a)))"

text \<open>
  Modelled from the spec: with linear easing an animation of a number from 0 to
  \<open>target\<close> reports the value at the fraction \<open>progress\<close> of the way,
  \<^verbatim>\<open>0 + (target - 0) * progress\<close>.
\<close>

definition animated :: "real \<Rightarrow> animation \<Rightarrow> real" where
  "animated target a = js_times target (progress a)"

subsection \<open>TypewriterText\<close>

text \<open>\<^verbatim>\<open>text.slice(0, end)\<close>: a negative end counts from the end of the string.\<close>

definition slice0 :: "string \<Rightarrow> int \<Rightarrow> string" where
  "slice0 s e = (if e < 0 then take (nat (int (length s) + e)) s else take (nat e) s)"

text \<open>
  \<^verbatim>\<open>Math.max(0.5, Math.min(1.5, text.length * 0.04))\<close>, where \<^verbatim>\<open>0.04\<close> is the double nearest
  to 4/100 and the product is the double nearest to the exact product.
\<close>

definition reveal_duration :: "nat \<Rightarrow> real" where
  "reveal_duration n = max (1/2) (min (3/2) (js_times (real n) (double (4/100))))"

text \<open>
  One mounted \<^verbatim>\<open>TypewriterText\<close>: its prop \<^verbatim>\<open>text\<close>, written \<open>text_prop\<close> here, the string
  in the motion value \<^verbatim>\<open>motionText\<close>, and the animation its effect started.
\<close>

record TypewriterText_state =
  text_prop :: string
  motionText :: string
  animation :: animation

text \<open>Mounting: \<^verbatim>\<open>useMotionValue('')\<close>, then the effect starts the animation.\<close>

definition TypewriterText_mount :: "string \<Rightarrow> TypewriterText_state" where
  "TypewriterText_mount t =
     \<lparr>text_prop = t, motionText = '''', animation = animate (reveal_duration (length t)) 0\<rparr>"

text \<open>\<^verbatim>\<open>onUpdate\<close>: \<^verbatim>\<open>motionText.set(text.slice(0, Math.ceil(latest)))\<close>\<close>

definition onUpdate :: "real \<Rightarrow> TypewriterText_state \<Rightarrow> TypewriterText_state" where
  "onUpdate latest s = s\<lparr>motionText := slice0 (text_prop s) \<lceil>latest\<rceil>\<rparr>"

text \<open>
  One animation frame: a playing animation moves on and reports the value it
  animates, \<^verbatim>\<open>animate(0, text.length, ...)\<close>.
\<close>

definition TypewriterText_frame :: "real \<Rightarrow> TypewriterText_state \<Rightarrow> TypewriterText_state" where
  "TypewriterText_frame dt s =
     (if playing (animation s)
      then (let a = advance dt (animation s)
            in onUpdate (animated (real (length (text_prop s))) a) (s\<lparr>animation := a\<rparr>))
      else s)"

text \<open>The cleanup of the effect: \<^verbatim>\<open>animation.stop()\<close>\<close>

definition TypewriterText_cleanup :: "TypewriterText_state \<Rightarrow> TypewriterText_state" where
  "TypewriterText_cleanup s = s\<lparr>animation := stop (animation s)\<rparr>"

text \<open>
  A render with a new \<^verbatim>\<open>text\<close> runs the effect again: the animator continues with a
  new animation, and the motion value keeps its string until the first update.
\<close>

definition TypewriterText_update :: "string \<Rightarrow> TypewriterText_state \<Rightarrow> TypewriterText_state" where
  "TypewriterText_update t s =
     (if text_prop s = t then s
      else s\<lparr>text_prop := t, animation := animate (reveal_duration (length t)) 0\<rparr>)"

subsection \<open>FadeOutText\<close>

text \<open>One mounted \<^verbatim>\<open>FadeOutText\<close>: the two animations its effect started.\<close>

record FadeOutText_state =
  strikeAnimation :: animation
  fadeAnimation :: animation

text \<open>
  The effect: the strike-through runs for \<^verbatim>\<open>0.3\<close> s, the fade for \<^verbatim>\<open>0.5\<close> s after a delay
  of \<^verbatim>\<open>0.3\<close> s; \<^verbatim>\<open>onComplete\<close> belongs to the fade.  The literal \<^verbatim>\<open>0.3\<close> is the
  double nearest to 3/10.
\<close>

definition FadeOutText_effect :: FadeOutText_state where
  "FadeOutText_effect =
     \<lparr>strikeAnimation = animate (double (3/10)) 0,
      fadeAnimation = animate (1/2) (double (3/10))\<rparr>"

definition FadeOutText_cleanup :: "FadeOutText_state \<Rightarrow> FadeOutText_state" where
  "FadeOutText_cleanup s =
     \<lparr>strikeAnimation = stop (strikeAnimation s), fadeAnimation = stop (fadeAnimation s)\<rparr>"

text \<open>One animation frame; the result tells whether \<^verbatim>\<open>onComplete\<close> is called in it.\<close>

definition FadeOutText_frame :: "real \<Rightarrow> FadeOutText_state \<Rightarrow> FadeOutText_state \<times> bool" where
  "FadeOutText_frame dt s =
     (\<lparr>strikeAnimation = advance dt (strikeAnimation s),
       fadeAnimation = advance dt (fadeAnimation s)\<rparr>,
      completes dt (fadeAnimation s))"

text \<open>A run of frames, with the number of calls of \<^verbatim>\<open>onComplete\<close>.\<close>

fun FadeOutText_frames :: "real list \<Rightarrow> FadeOutText_state \<Rightarrow> FadeOutText_state \<times> nat" where
  "FadeOutText_frames [] s = (s, 0)"
| "FadeOutText_frames (dt # dts) s =
     (let (s1, c) = FadeOutText_frame dt s; (s2, n) = FadeOutText_frames dts s1
      in (s2, (if c then 1 else 0) + n))"

fun TypewriterText_frames :: "real list \<Rightarrow> TypewriterText_state \<Rightarrow> TypewriterText_state" where
  "TypewriterText_frames [] s = s"
| "TypewriterText_frames (dt # dts) s = TypewriterText_frames dts (TypewriterText_frame dt s)"

text \<open>The time a list of frames takes.\<close>

definition total :: "real list \<Rightarrow> real" where
  "total dts = sum_list (map (max 0) dts)"

section \<open>The mounted component\<close>

text \<open>
  The state of one mounted \<^verbatim>\<open>DiffText\<close>: its current props, the state variable
  \<^verbatim>\<open>removedParts\<close>, and the animators mounted under it, each under the key of its
  element.  A \<^verbatim>\<open>FadeOutText\<close> is kept with the index its \<^verbatim>\<open>onComplete\<close> binds.

  An animator whose effect is cleaned up (React unmounts it, or runs its effect
  again) is not forgotten: what the cleanup leaves of it is kept among the detached
  animators, which see every later frame as the mounted ones do.

  The components say what is rendered, which effects run with which dependencies
  and what their cleanups do.  When they run is React's part: state set by
  \<^verbatim>\<open>useState\<close> lives as long as the component is mounted, a child stays mounted while
  an element of its type and key is rendered, an effect runs after the first render
  and after each render that changes one of its dependencies, and its cleanup runs
  before the effect runs again and when the component is unmounted.
\<close>

record DiffText_state =
  props :: DiffTextProps
  removedParts :: "nat set"
  typewriters :: "(string \<times> TypewriterText_state) list"
  fadeouts :: "(string \<times> nat \<times> FadeOutText_state) list"
  detached_typewriters :: "TypewriterText_state list"
  detached_fadeouts :: "(nat \<times> FadeOutText_state) list"
  mounted :: bool

text \<open>
  A \<^verbatim>\<open>TypewriterText\<close> element keeps the animator mounted under its key, whose effect
  runs again only when the text differs; otherwise a new animator is mounted.
\<close>

fun typewriter_of ::
  "(string \<times> TypewriterText_state) list \<Rightarrow> node option \<Rightarrow> (string \<times> TypewriterText_state) list" where
  "typewriter_of old (Some (TypewriterText_el k t c b)) =
     [(k, case map_of old k of
            None \<Rightarrow> TypewriterText_mount t
          | Some s \<Rightarrow> TypewriterText_update t s)]"
| "typewriter_of old (Some (FadeOutText_el k t i)) = []"
| "typewriter_of old (Some (span_el k st t)) = []"
| "typewriter_of old None = []"

text \<open>
  A \<^verbatim>\<open>FadeOutText\<close> element receives a new \<^verbatim>\<open>onComplete\<close> closure in every render of
  \<^verbatim>\<open>DiffText\<close>, and \<^verbatim>\<open>onComplete\<close> is a dependency of its effect: whether the animator
  was mounted before or not, after the render its two animations have just started.
\<close>

fun fadeout_of :: "node option \<Rightarrow> (string \<times> nat \<times> FadeOutText_state) list" where
  "fadeout_of (Some (FadeOutText_el k t i)) = [(k, i, FadeOutText_effect)]"
| "fadeout_of (Some (TypewriterText_el k t c b)) = []"
| "fadeout_of (Some (span_el k st t)) = []"
| "fadeout_of None = []"

definition typewriters_of ::
  "(string \<times> TypewriterText_state) list \<Rightarrow> node option list \<Rightarrow> (string \<times> TypewriterText_state) list" where
  "typewriters_of old nodes = concat (map (typewriter_of old) nodes)"

definition fadeouts_of :: "node option list \<Rightarrow> (string \<times> nat \<times> FadeOutText_state) list" where
  "fadeouts_of nodes = concat (map fadeout_of nodes)"

text \<open>
  The cleanups a render causes.  Every mounted \<^verbatim>\<open>FadeOutText\<close> is cleaned up, since its
  effect runs again or it is unmounted; a \<^verbatim>\<open>TypewriterText\<close> is cleaned up unless it
  stays mounted with the same text.
\<close>

definition cleaned_typewriters ::
  "(string \<times> TypewriterText_state) list \<Rightarrow> (string \<times> TypewriterText_state) list \<Rightarrow> TypewriterText_state list" where
  "cleaned_typewriters old new =
     map (\<lambda>kt. TypewriterText_cleanup (snd kt)) (filter (\<lambda>kt. map_of new (fst kt) \<noteq> Some (snd kt)) old)"

definition cleaned_fadeouts ::
  "(string \<times> nat \<times> FadeOutText_state) list \<Rightarrow> (nat \<times> FadeOutText_state) list" where
  "cleaned_fadeouts old = map (\<lambda>kf. (fst (snd kf), FadeOutText_cleanup (snd (snd kf)))) old"

text \<open>Unmounting the component cleans up every animator mounted under it.\<close>

definition unmount :: "DiffText_state \<Rightarrow> DiffText_state" where
  "unmount s =
     s\<lparr>typewriters := [], fadeouts := [],
       detached_typewriters :=
         detached_typewriters s @ map (\<lambda>kt. TypewriterText_cleanup (snd kt)) (typewriters s),
       detached_fadeouts := detached_fadeouts s @ cleaned_fadeouts (fadeouts s),
       mounted := False\<rparr>"

text \<open>
  A render pass.  The state variable is the one \<^verbatim>\<open>useState\<close> holds: a render reads
  it and does not set it.  An error thrown by the diff function leaves the
  component unmounted.
\<close>

definition rerender :: "diff_lib \<Rightarrow> DiffText_state \<Rightarrow> DiffText_state" where
  "rerender lib s =
     (case DiffText lib (props s) (removedParts s) of
        Inl e \<Rightarrow> unmount s
      | Inr el \<Rightarrow>
          (let tws = typewriters_of (typewriters s) (el_children el)
           in s\<lparr>typewriters := tws,
                fadeouts := fadeouts_of (el_children el),
                detached_typewriters :=
                  detached_typewriters s @ cleaned_typewriters (typewriters s) tws,
                detached_fadeouts := detached_fadeouts s @ cleaned_fadeouts (fadeouts s)\<rparr>))"

text \<open>The first render: \<^verbatim>\<open>useState<Set<number>>(new Set())\<close>\<close>

definition init :: "diff_lib \<Rightarrow> DiffTextProps \<Rightarrow> DiffText_state" where
  "init lib p =
     rerender lib
       \<lparr>props = p, removedParts = {}, typewriters = [], fadeouts = [],
        detached_typewriters = [], detached_fadeouts = [], mounted = True\<rparr>"

datatype event = SetProps DiffTextProps | Frame real | Unmount

text \<open>The indices whose \<^verbatim>\<open>onComplete\<close> is called in a frame.\<close>

definition fired_by :: "real \<Rightarrow> (nat \<times> FadeOutText_state) list \<Rightarrow> nat list" where
  "fired_by dt fs = map fst (filter (\<lambda>f. snd (FadeOutText_frame dt (snd f))) fs)"

text \<open>In a frame every animator moves on, mounted or detached.\<close>

definition advance_animators :: "real \<Rightarrow> DiffText_state \<Rightarrow> DiffText_state" where
  "advance_animators dt s =
     s\<lparr>typewriters := map (\<lambda>kt. (fst kt, TypewriterText_frame dt (snd kt))) (typewriters s),
       fadeouts :=
         map (\<lambda>kf. (fst kf, fst (snd kf), fst (FadeOutText_frame dt (snd (snd kf))))) (fadeouts s),
       detached_typewriters := map (TypewriterText_frame dt) (detached_typewriters s),
       detached_fadeouts :=
         map (\<lambda>f. (fst f, fst (FadeOutText_frame dt (snd f)))) (detached_fadeouts s)\<rparr>"

definition fired_in :: "real \<Rightarrow> DiffText_state \<Rightarrow> nat list" where
  "fired_in dt s = fired_by dt (map snd (fadeouts s)) @ fired_by dt (detached_fadeouts s)"

text \<open>
  One step of the component, with the indices passed to \<^verbatim>\<open>handleRemoveComplete\<close> in
  it.  The state updates of the callbacks of a frame are applied one after the
  other, and a mounted component renders again when there was one.
\<close>

fun step :: "diff_lib \<Rightarrow> event \<Rightarrow> DiffText_state \<Rightarrow> DiffText_state \<times> nat list" where
  "step lib (SetProps p) s = (if mounted s then (rerender lib (s\<lparr>props := p\<rparr>), []) else (s, []))"
| "step lib Unmount s = (if mounted s then (unmount s, []) else (s, []))"
| "step lib (Frame dt) s =
     (let fired = fired_in dt s;
          s1 = (advance_animators dt s)\<lparr>removedParts := fold handleRemoveComplete fired (removedParts s)\<rparr>
      in (if fired = [] then s1 else if mounted s then rerender lib s1 else s1, fired))"

fun run :: "diff_lib \<Rightarrow> event list \<Rightarrow> DiffText_state \<Rightarrow> DiffText_state \<times> nat list" where
  "run lib [] s = (s, [])"
| "run lib (e # es) s =
     (let (s1, fired) = step lib e s; (s2, fired') = run lib es s1 in (s2, fired @ fired'))"

text \<open>What the component shows in a state.\<close>

definition view :: "diff_lib \<Rightarrow> DiffText_state \<Rightarrow> error + element" where
  "view lib s = DiffText lib (props s) (removedParts s)"

subsection \<open>Auxiliary notions\<close>

text \<open>Events that leave \<^verbatim>\<open>showRemoved\<close> switched off.\<close>

definition keeps_hidden :: "event \<Rightarrow> bool" where
  "keeps_hidden e =
     (case e of SetProps p \<Rightarrow> showRemoved p = Some False | Frame dt \<Rightarrow> True | Unmount \<Rightarrow> True)"

text \<open>
  The states the component reaches: every detached animation is stopped, and an
  unmounted component has no mounted animator.
\<close>

definition tw_stopped :: "TypewriterText_state list \<Rightarrow> bool" where
  "tw_stopped ts = list_all (\<lambda>t. stopped (animation t)) ts"

definition fo_stopped :: "(nat \<times> FadeOutText_state) list \<Rightarrow> bool" where
  "fo_stopped fs =
     list_all (\<lambda>f. stopped (strikeAnimation (snd f)) \<and> stopped (fadeAnimation (snd f))) fs"

definition settled :: "DiffText_state \<Rightarrow> bool" where
  "settled s =
     (tw_stopped (detached_typewriters s) \<and> fo_stopped (detached_fadeouts s)
      \<and> (if mounted s then True else fadeouts s = [] \<and> typewriters s = []))"

text \<open>
  The animation of a \<^verbatim>\<open>TypewriterText\<close> with the text \<open>t\<close>, \<open>T\<close> seconds after its
  effect ran, and the string the animator shows then:
  \<^verbatim>\<open>text.slice(0, Math.ceil(latest))\<close>.
\<close>

definition reveal_at :: "string \<Rightarrow> real \<Rightarrow> animation" where
  "reveal_at t T =
     \<lparr>delay = 0, duration = reveal_duration (length t), elapsed = T, stopped = False\<rparr>"

definition shown :: "string \<Rightarrow> real \<Rightarrow> string" where
  "shown t T = take (nat \<lceil>animated (real (length t)) (reveal_at t T)\<rceil>) t"

text \<open>Props used as concrete inputs.\<close>

definition props_ab :: DiffTextProps where
  "props_ab = \<lparr>oldText = Some ''a b'', newText = Some ''a c'', diffMode = None,
     showRemoved = None, animateChanges = None, className = None\<rparr>"

definition props_hidden :: DiffTextProps where
  "props_hidden = \<lparr>oldText = Some ''a b'', newText = Some ''a c'', diffMode = None,
     showRemoved = Some False, animateChanges = None, className = None\<rparr>"

definition props_xy :: DiffTextProps where
  "props_xy = \<lparr>oldText = Some ''x y'', newText = Some ''x z'', diffMode = None,
     showRemoved = None, animateChanges = None, className = None\<rparr>"

definition props_null :: DiffTextProps where
  "props_null = \<lparr>oldText = None, newText = Some ''hello'', diffMode = None,
     showRemoved = None, animateChanges = None, className = None\<rparr>"

definition props_empty :: DiffTextProps where
  "props_empty = \<lparr>oldText = Some '''', newText = Some ''hello'', diffMode = None,
     showRemoved = None, animateChanges = None, className = None\<rparr>"

text \<open>The indices bound by the mounted \<^verbatim>\<open>FadeOutText\<close> animators.\<close>

definition fade_indices :: "DiffText_state \<Rightarrow> nat list" where
  "fade_indices s = map (\<lambda>kf. fst (snd kf)) (fadeouts s)"

text \<open>The indices of the removed parts of a diff, counted from \<open>i\<close>.\<close>

fun removed_indices :: "nat \<Rightarrow> Change list \<Rightarrow> nat list" where
  "removed_indices i [] = []"
| "removed_indices i (part # changes) =
     (if removed part \<and> \<not> added part then [i] else []) @ removed_indices (Suc i) changes"


text \<open>A \<^verbatim>\<open>FadeOutText\<close> whose effect ran \<open>e\<close> seconds ago.\<close>

definition fade_at :: "real \<Rightarrow> FadeOutText_state" where
  "fade_at e =
     \<lparr>strikeAnimation = \<lparr>delay = 0, duration = double (3/10), elapsed = e, stopped = False\<rparr>,
      fadeAnimation = \<lparr>delay = double (3/10), duration = 1/2, elapsed = e, stopped = False\<rparr>\<rparr>"


text \<open>
  Every mounted \<^verbatim>\<open>FadeOutText\<close> ran its effect \<open>e\<close> seconds ago, and its fade has not
  finished.
\<close>

definition fading :: "real \<Rightarrow> DiffText_state \<Rightarrow> bool" where
  "fading e s =
     (0 \<le> e \<and> e < 1599/2000 \<and> list_all (\<lambda>kf. snd (snd kf) = fade_at e) (fadeouts s))"

text \<open>The indices bound by the \<^verbatim>\<open>FadeOutText\<close> elements of a render.\<close>

definition rendered_fades :: "node option list \<Rightarrow> nat list" where
  "rendered_fades nodes = map (\<lambda>kf. fst (snd kf)) (fadeouts_of nodes)"

text \<open>
  A mounted component has rendered its props and its set, and the mounted
  \<^verbatim>\<open>FadeOutText\<close> animators are those of the elements of that render.
\<close>

definition synced :: "diff_lib \<Rightarrow> DiffText_state \<Rightarrow> bool" where
  "synced lib s =
     (if mounted s
      then (case view lib s of
              Inl err \<Rightarrow> False
            | Inr el \<Rightarrow> fade_indices s = rendered_fades (el_children el))
      else True)"


text \<open>The keys and the texts of the \<^verbatim>\<open>TypewriterText\<close> elements of a render.\<close>

definition rendered_typewriters :: "node option list \<Rightarrow> (string \<times> string) list" where
  "rendered_typewriters nodes = map (\<lambda>kt. (fst kt, text_prop (snd kt))) (typewriters_of [] nodes)"

text \<open>
  The mounted \<^verbatim>\<open>TypewriterText\<close> animators of a mounted component are those of the
  elements of its render, each with the text of its element.
\<close>

definition typewriters_synced :: "diff_lib \<Rightarrow> DiffText_state \<Rightarrow> bool" where
  "typewriters_synced lib s =
     (if mounted s
      then (case view lib s of
              Inl err \<Rightarrow> False
            | Inr el \<Rightarrow>
                map (\<lambda>kt. (fst kt, text_prop (snd kt))) (typewriters s)
                  = rendered_typewriters (el_children el))
      else True)"

text \<open>What the mounted \<^verbatim>\<open>TypewriterText\<close> animators show: key, text and motion value.\<close>

definition typewriter_texts :: "DiffText_state \<Rightarrow> (string \<times> string \<times> string) list" where
  "typewriter_texts s = map (\<lambda>kt. (fst kt, text_prop (snd kt), motionText (snd kt))) (typewriters s)"

text \<open>Props for a text that changes under the key of its segment.\<close>

definition props_hello :: DiffTextProps where
  "props_hello = \<lparr>oldText = Some '''', newText = Some ''hello '', diffMode = None,
     showRemoved = None, animateChanges = None, className = None\<rparr>"

definition props_goodbye :: DiffTextProps where
  "props_goodbye = \<lparr>oldText = Some '''', newText = Some ''goodbye'', diffMode = None,
     showRemoved = None, animateChanges = None, className = None\<rparr>"
section \<open>Arithmetic of doubles\<close>

text \<open>
  Rounding to a double is monotone, it leaves a number with a significand of at most
  53 bits as it is, and it can be computed once the binade of its argument is known.
\<close>

lemma round_even_bounds: "\<lfloor>x\<rfloor> \<le> round_even x \<and> round_even x \<le> \<lfloor>x\<rfloor> + 1"
  by (simp add: round_even_def Let_def)

lemma round_even_of_int [simp]: "round_even (of_int k) = k"
  by (simp add: round_even_def)

lemma round_even_numeral [simp]: "round_even (numeral n) = numeral n"
  using round_even_of_int [of "numeral n"] by simp

lemma round_even_0 [simp]: "round_even 0 = 0"
  using round_even_of_int [of 0] by simp

lemma round_even_mono: "x \<le> y \<Longrightarrow> round_even x \<le> round_even y"
proof -
  assume xy: "x \<le> y"
  then have fl: "\<lfloor>x\<rfloor> \<le> \<lfloor>y\<rfloor>" by (rule floor_mono)
  show ?thesis
  proof (cases "\<lfloor>x\<rfloor> = \<lfloor>y\<rfloor>")
    case True
    with xy show ?thesis by (auto simp: round_even_def Let_def)
  next
    case False
    with fl have "\<lfloor>x\<rfloor> + 1 \<le> \<lfloor>y\<rfloor>" by simp
    with round_even_bounds [of x] round_even_bounds [of y] show ?thesis by linarith
  qed
qed

lemma powr_floor_log_le: "0 < x \<Longrightarrow> 2 powr of_int \<lfloor>log 2 x\<rfloor> \<le> x"
proof -
  assume x: "0 < x"
  show ?thesis using x by (simp add: le_log_iff [symmetric])
qed

lemma less_powr_floor_log: "0 < x \<Longrightarrow> x < 2 powr of_int (\<lfloor>log 2 x\<rfloor> + 1)"
proof -
  assume x: "0 < x"
  have "log 2 x < of_int (\<lfloor>log 2 x\<rfloor> + 1)" by linarith
  then show ?thesis using x by (simp only: less_powr_iff [of 2 x, simplified])
qed

lemma floor_log_eqI:
  "0 < x \<Longrightarrow> 2 powr of_int e \<le> x \<Longrightarrow> x < 2 powr of_int (e + 1) \<Longrightarrow> \<lfloor>log 2 x\<rfloor> = e"
proof -
  assume x: "0 < x" and l: "2 powr of_int e \<le> x" and u: "x < 2 powr of_int (e + 1)"
  from l x have "of_int e \<le> log 2 x" by (simp add: le_log_iff)
  moreover from u x have "log 2 x < of_int (e + 1)" by (simp add: log_less_iff)
  ultimately show ?thesis by (simp add: floor_eq_iff)
qed

lemma ulp_exponent_mono: "0 < x \<Longrightarrow> x \<le> y \<Longrightarrow> ulp_exponent x \<le> ulp_exponent y"
proof -
  assume "0 < x" "x \<le> y"
  then have "log 2 x \<le> log 2 y" by simp
  then have "\<lfloor>log 2 x\<rfloor> \<le> \<lfloor>log 2 y\<rfloor>" by (rule floor_mono)
  then show ?thesis by (simp add: ulp_exponent_def)
qed

lemma double_pos_mono:
  assumes x: "0 < x" and xy: "x \<le> y"
  shows "double_pos x \<le> double_pos y"
proof -
  from x xy have y: "0 < y" by simp
  let ?kx = "ulp_exponent x" and ?ky = "ulp_exponent y"
  have k: "?kx \<le> ?ky" using x xy by (rule ulp_exponent_mono)
  show ?thesis
  proof (cases "?kx = ?ky")
    case True
    have "x / 2 powr of_int ?kx \<le> y / 2 powr of_int ?kx"
      using xy by (simp add: divide_right_mono)
    then have "round_even (x / 2 powr of_int ?kx) \<le> round_even (y / 2 powr of_int ?kx)"
      by (rule round_even_mono)
    then have "real_of_int (round_even (x / 2 powr of_int ?kx)) * 2 powr of_int ?kx
        \<le> real_of_int (round_even (y / 2 powr of_int ?kx)) * 2 powr of_int ?kx"
      by (simp add: mult_right_mono)
    then show ?thesis by (simp add: double_pos_def True [symmetric])
  next
    case False
    with k have lt: "?kx + 1 \<le> ?ky" by simp
    then have ky: "?ky = \<lfloor>log 2 y\<rfloor> - 52" by (auto simp: ulp_exponent_def max_def split: if_splits)
    have kx: "\<lfloor>log 2 x\<rfloor> - 52 \<le> ?kx" by (simp add: ulp_exponent_def)
    have "x < 2 powr of_int (\<lfloor>log 2 x\<rfloor> + 1)" using x by (rule less_powr_floor_log)
    also have "\<dots> \<le> (2::real) powr of_int (?kx + 53)"
      using kx by (simp del: of_int_add)
    finally have "x < 2 powr of_int (?kx + 53)" .
    then have "x / 2 powr of_int ?kx \<le> 2 powr of_int (?kx + 53) / 2 powr of_int ?kx"
      by (simp add: divide_right_mono)
    also have "(2::real) powr of_int (?kx + 53) / 2 powr of_int ?kx = 2 ^ 53"
      by (simp add: powr_add)
    finally have "x / 2 powr of_int ?kx \<le> of_int (2 ^ 53)" by simp
    then have "round_even (x / 2 powr of_int ?kx) \<le> round_even (of_int (2 ^ 53))"
      by (rule round_even_mono)
    then have "round_even (x / 2 powr of_int ?kx) \<le> 2 ^ 53" by simp
    then have "(of_int (round_even (x / 2 powr of_int ?kx)) :: real) \<le> 2 ^ 53"
      by (metis of_int_le_iff of_int_numeral of_int_power)
    then have "double_pos x \<le> 2 ^ 53 * 2 powr of_int ?kx"
      by (simp add: double_pos_def mult_right_mono)
    also have "(2::real) ^ 53 * 2 powr of_int ?kx = 2 powr of_int (?kx + 53)"
      by (simp add: powr_add)
    finally have ux: "double_pos x \<le> 2 powr of_int (?kx + 53)" .
    have "(2::real) powr of_int (?ky + 52) \<le> y"
      using powr_floor_log_le [OF y] by (simp add: ky)
    then have "(2::real) powr of_int (?ky + 52) / 2 powr of_int ?ky \<le> y / 2 powr of_int ?ky"
      by (simp add: divide_right_mono)
    moreover have "(2::real) powr of_int (?ky + 52) / 2 powr of_int ?ky = 2 ^ 52"
      by (simp add: powr_add)
    ultimately have "of_int (2 ^ 52) \<le> y / 2 powr of_int ?ky" by simp
    then have "round_even (of_int (2 ^ 52)) \<le> round_even (y / 2 powr of_int ?ky)"
      by (rule round_even_mono)
    then have "2 ^ 52 \<le> round_even (y / 2 powr of_int ?ky)" by simp
    then have "(2 ^ 52 :: real) \<le> of_int (round_even (y / 2 powr of_int ?ky))"
      by (metis of_int_le_iff of_int_numeral of_int_power)
    then have "2 ^ 52 * 2 powr of_int ?ky \<le> double_pos y"
      by (simp add: double_pos_def mult_right_mono)
    moreover have "(2::real) ^ 52 * 2 powr of_int ?ky = 2 powr of_int (?ky + 52)"
      by (simp add: powr_add)
    ultimately have ly: "2 powr of_int (?ky + 52) \<le> double_pos y" by simp
    have "(2::real) powr of_int (?kx + 53) \<le> 2 powr of_int (?ky + 52)"
      using lt by (simp del: of_int_add)
    with ux ly show ?thesis by linarith
  qed
qed

lemma double_pos_nonneg: "0 < x \<Longrightarrow> 0 \<le> double_pos x"
proof -
  assume "0 < x"
  then have "0 \<le> x / 2 powr of_int (ulp_exponent x)" by simp
  then have "round_even 0 \<le> round_even (x / 2 powr of_int (ulp_exponent x))"
    by (rule round_even_mono)
  then have "0 \<le> round_even (x / 2 powr of_int (ulp_exponent x))"
    using round_even_of_int [of 0] by simp
  then show ?thesis by (simp add: double_pos_def)
qed

lemma double_0 [simp]: "double 0 = 0"
  by (simp add: double_def)

lemma double_nonneg: "0 \<le> x \<Longrightarrow> 0 \<le> double x"
  by (simp add: double_def double_pos_nonneg)

lemma double_mono: "0 \<le> x \<Longrightarrow> x \<le> y \<Longrightarrow> double x \<le> double y"
  by (cases "x = 0") (auto simp: double_def double_pos_nonneg double_pos_mono)

lemma double_pos_dyadic:
  assumes m: "0 < m" "m < 2 ^ 53" and j: "- 1074 \<le> j"
  shows "double_pos (real m * 2 powr of_int j) = real m * 2 powr of_int j"
proof -
  define x where "x = real m * 2 powr of_int j"
  define k where "k = ulp_exponent x"
  have x: "0 < x" using m(1) by (simp add: x_def)
  have "real m < 2 ^ 53" using m(2) by (metis of_nat_less_iff of_nat_numeral of_nat_power)
  then have "x < 2 ^ 53 * 2 powr of_int j" by (simp add: x_def mult_strict_right_mono)
  also have "(2::real) ^ 53 * 2 powr of_int j = 2 powr of_int (j + 53)"
    by (simp add: powr_add)
  finally have "log 2 x < of_int (j + 53)" using x by (simp only: less_powr_iff [of 2 x, simplified])
  then have "\<lfloor>log 2 x\<rfloor> < j + 53" by (simp add: floor_less_iff)
  with j have kj: "k \<le> j" by (simp add: k_def ulp_exponent_def)
  define d where "d = nat (j - k)"
  have jd: "j = k + int d" using kj by (simp add: d_def)
  have pj: "(2::real) powr of_int j = 2 powr of_int k * 2 ^ d"
    by (subst jd) (simp add: powr_add powr_realpow)
  have "x / 2 powr of_int k = real m * (2 powr of_int k * 2 ^ d) / 2 powr of_int k"
    by (simp only: x_def pj)
  also have "\<dots> = real m * 2 ^ d" by simp
  also have "\<dots> = of_int (int m * 2 ^ d)" by simp
  finally have q: "x / 2 powr of_int k = of_int (int m * 2 ^ d)" .
  have "double_pos x = of_int (round_even (x / 2 powr of_int k)) * 2 powr of_int k"
    by (simp add: double_pos_def k_def)
  also have "\<dots> = of_int (int m * 2 ^ d) * 2 powr of_int k"
    by (simp only: q round_even_of_int)
  also have "\<dots> = real m * (2 powr of_int k * 2 ^ d)" by simp
  also have "\<dots> = x" by (simp only: x_def pj)
  finally show ?thesis by (simp only: x_def)
qed

lemma double_dyadic:
  "m < 2 ^ 53 \<Longrightarrow> j \<le> 1074 \<Longrightarrow> double (real m / 2 ^ j) = real m / 2 ^ j"
proof (cases "m = 0")
  case True
  then show ?thesis by simp
next
  case False
  assume m: "m < 2 ^ 53" and j: "j \<le> 1074"
  have eq: "real m * 2 powr of_int (- int j) = real m / 2 ^ j"
    by (simp add: powr_minus powr_realpow field_simps)
  have "double_pos (real m * 2 powr of_int (- int j)) = real m * 2 powr of_int (- int j)"
    by (rule double_pos_dyadic) (use False m j in simp_all)
  then have "double_pos (real m / 2 ^ j) = real m / 2 ^ j" by (simp only: eq)
  moreover have "0 < real m / 2 ^ j" using False by simp
  ultimately show ?thesis by (simp add: double_def)
qed

lemma double_of_nat: "n < 2 ^ 53 \<Longrightarrow> double (real n) = real n"
  using double_dyadic [of n 0] by simp

lemma double_eval:
  assumes "0 < x" "2 powr of_int e \<le> x" "x < 2 powr of_int (e + 1)" "- 1022 \<le> e"
  shows "double x = of_int (round_even (x / 2 powr of_int (e - 52))) * 2 powr of_int (e - 52)"
proof -
  have "\<lfloor>log 2 x\<rfloor> = e" using assms(1-3) by (rule floor_log_eqI)
  then have "ulp_exponent x = e - 52" using assms(4) by (simp add: ulp_exponent_def)
  then show ?thesis using assms(1) by (simp add: double_def double_pos_def)
qed

lemma powr_neg_int_numeral: "(2::real) powr of_int (- numeral n) = 1 / 2 ^ numeral n"
  by (simp add: powr_minus_divide)

lemma powr_int_numeral: "(2::real) powr of_int (numeral n) = 2 ^ numeral n"
  by simp

lemma double_3_10: "double (3/10) = 5404319552844595 / 2 ^ 54"
proof -
  have "double (3/10) = of_int (round_even ((3/10) / 2 powr of_int (- 2 - 52))) * 2 powr of_int (- 2 - 52)"
    by (rule double_eval) (simp_all add: powr_minus_divide)
  also have "(3/10) / (2::real) powr of_int (- 2 - 52) = 27021597764222976 / 5"
    by (simp add: powr_minus_divide)
  also have "round_even (27021597764222976 / 5) = 5404319552844595"
    by (simp add: round_even_def Let_def)
  finally show ?thesis by (simp add: powr_minus_divide)
qed

lemma double_4_100: "double (4/100) = 5764607523034235 / 2 ^ 57"
proof -
  have "double (4/100) = of_int (round_even ((4/100) / 2 powr of_int (- 5 - 52))) * 2 powr of_int (- 5 - 52)"
    by (rule double_eval) (simp_all add: powr_minus_divide)
  also have "(4/100) / (2::real) powr of_int (- 5 - 52) = 144115188075855872 / 25"
    by (simp add: powr_minus_divide)
  also have "round_even (144115188075855872 / 25) = 5764607523034235"
    by (simp add: round_even_def Let_def)
  finally show ?thesis by (simp add: powr_minus_divide)
qed

lemma double_300: "double (double (3/10) * 1000) = 300"
proof -
  let ?x = "5404319552844595 / 2 ^ 54 * (1000::real)"
  have "double ?x = of_int (round_even (?x / 2 powr of_int (8 - 52))) * 2 powr of_int (8 - 52)"
    by (rule double_eval) (simp_all add: powr_minus_divide)
  also have "?x / (2::real) powr of_int (8 - 52) = 675539944105574375 / 128"
    by (simp add: powr_minus_divide)
  also have "round_even (675539944105574375 / 128) = 5277655813324800"
    by (simp add: round_even_def Let_def)
  finally show ?thesis by (simp add: powr_minus_divide double_3_10)
qed

lemma double_35: "double (35 * double (4/100)) = 6305039478318695 / 2 ^ 52"
proof -
  let ?x = "35 * (5764607523034235 / 2 ^ 57 :: real)"
  have "double ?x = of_int (round_even (?x / 2 powr of_int (0 - 52))) * 2 powr of_int (0 - 52)"
    by (rule double_eval) (simp_all add: powr_minus_divide)
  also have "?x / (2::real) powr of_int (0 - 52) = 201761263306198225 / 32"
    by (simp add: powr_minus_divide)
  also have "round_even (201761263306198225 / 32) = 6305039478318695"
    by (simp add: round_even_def Let_def)
  finally show ?thesis unfolding double_4_100 by (simp add: powr_minus_divide)
qed

lemma milliseconds_0 [simp]: "milliseconds 0 = 0"
  by (simp add: milliseconds_def js_times_def)

lemma milliseconds_half [simp]: "milliseconds (1/2) = 500"
  using double_of_nat [of 500] by (simp add: milliseconds_def js_times_def)

lemma milliseconds_3_10 [simp]: "milliseconds (double (3/10)) = 300"
  by (simp add: milliseconds_def js_times_def double_300)

lemma milliseconds_3_2 [simp]: "milliseconds (3/2) = 1500"
  using double_of_nat [of 1500] by (simp add: milliseconds_def js_times_def)

lemma milliseconds_mono: "0 \<le> x \<Longrightarrow> x \<le> y \<Longrightarrow> milliseconds x \<le> milliseconds y"
  by (simp add: milliseconds_def js_times_def double_mono)

lemma js_round_mono: "x \<le> y \<Longrightarrow> js_round x \<le> js_round y"
  by (simp add: js_round_def floor_mono)


section \<open>Properties of the diff computation\<close>

lemma concat_tokenize_words: "concat (tokenize_words s) = s"
  by (induction s) (auto split: list.splits)

lemma concat_tokenize: "concat (tokenize mode s) = s"
  by (cases mode) (simp_all add: tokenize_def tokenize_chars_def concat_tokenize_words concat_map_singleton)

lemma diff_tokens_old:
  "map snd (filter (\<lambda>p. fst p \<noteq> Added) (diff_tokens xs ys)) = xs"
  by (induction xs ys rule: diff_tokens.induct) (simp_all add: o_def filter_map)

lemma diff_tokens_new:
  "map snd (filter (\<lambda>p. fst p \<noteq> Removed) (diff_tokens xs ys)) = ys"
  by (induction xs ys rule: diff_tokens.induct) (simp_all add: o_def filter_map)

lemma merge_runs_concat:
  "concat (map snd (filter (\<lambda>p. fst p \<noteq> K) (merge_runs l))) =
   concat (map snd (filter (\<lambda>p. fst p \<noteq> K) l))"
proof (induction l rule: merge_runs.induct)
  case 1
  show ?case by simp
next
  case (2 k v rest)
  show ?case
  proof (cases "merge_runs rest")
    case Nil
    with 2 show ?thesis by simp
  next
    case (Cons p ms)
    obtain k' v' where p: "p = (k', v')" by (cases p)
    from 2 Cons p show ?thesis by (auto split: if_splits)
  qed
qed

lemma old_of_compute: "old_of (compute old new mode) = old"
proof -
  have "old_of (compute old new mode) =
        concat (map snd (filter (\<lambda>p. fst p \<noteq> Added)
          (merge_runs (diff_tokens (tokenize mode old) (tokenize mode new)))))"
    by (simp add: old_of_def compute_def filter_map o_def mk_change_def)
  also have "\<dots> = concat (map snd (filter (\<lambda>p. fst p \<noteq> Added)
          (diff_tokens (tokenize mode old) (tokenize mode new))))"
    by (rule merge_runs_concat)
  also have "\<dots> = old"
    by (simp add: diff_tokens_old concat_tokenize)
  finally show ?thesis .
qed

lemma new_of_compute: "new_of (compute old new mode) = new"
proof -
  have "new_of (compute old new mode) =
        concat (map snd (filter (\<lambda>p. fst p \<noteq> Removed)
          (merge_runs (diff_tokens (tokenize mode old) (tokenize mode new)))))"
    by (simp add: new_of_def compute_def filter_map o_def mk_change_def)
  also have "\<dots> = concat (map snd (filter (\<lambda>p. fst p \<noteq> Removed)
          (diff_tokens (tokenize mode old) (tokenize mode new))))"
    by (rule merge_runs_concat)
  also have "\<dots> = new"
    by (simp add: diff_tokens_new concat_tokenize)
  finally show ?thesis .
qed

text \<open>
  The unchanged tokens of the diff are a longest common subsequence of the two token
  lists, and the segments alternate in kind.
\<close>

lemma diff_tokens_unchanged_count:
  "length (filter (\<lambda>p. fst p = Unchanged) (diff_tokens xs ys)) = lcs_len xs ys"
  by (induction xs ys rule: diff_tokens.induct) (auto simp: filter_map o_def)

lemma subseq_common_le_lcs_len:
  "subseq zs xs \<Longrightarrow> subseq zs ys \<Longrightarrow> length zs \<le> lcs_len xs ys"
proof (induction xs ys arbitrary: zs rule: lcs_len.induct)
  case (1 ys)
  then show ?case by simp
next
  case (2 x xs)
  then show ?case by simp
next
  case (3 x xs y ys)
  show ?case
  proof (cases zs)
    case Nil
    then show ?thesis by simp
  next
    case (Cons z zs')
    show ?thesis
    proof (cases "x = y")
      case True
      have a: "subseq zs' xs" using "3.prems"(1) Cons
        by (metis subseq_Cons' subseq_Cons2_iff)
      have b: "subseq zs' ys" using "3.prems"(2) Cons
        by (metis subseq_Cons' subseq_Cons2_iff)
      from "3.IH"(1) [OF True a b] True Cons show ?thesis by simp
    next
      case False
      have "subseq zs xs \<or> subseq zs ys"
        using "3.prems" Cons False by (metis subseq_Cons2_iff)
      then show ?thesis
      proof
        assume s: "subseq zs xs"
        from "3.IH"(2) [OF False s "3.prems"(2)] False show ?thesis by simp
      next
        assume s: "subseq zs ys"
        from "3.IH"(3) [OF False "3.prems"(1) s] False show ?thesis by simp
      qed
    qed
  qed
qed

lemma merge_runs_alternating: "alternating (merge_runs l)"
proof (induction l rule: merge_runs.induct)
  case 1
  show ?case by simp
next
  case (2 k v rest)
  show ?case
  proof (cases "merge_runs rest")
    case Nil
    then show ?thesis by simp
  next
    case (Cons p ms)
    obtain k' v' where p: "p = (k', v')" by (cases p)
    from 2 Cons p show ?thesis by (cases ms) (auto split: if_splits)
  qed
qed

lemma diff_tokens_common:
  "subseq (map snd (filter (\<lambda>p. fst p = Unchanged) (diff_tokens xs ys))) xs
   \<and> subseq (map snd (filter (\<lambda>p. fst p = Unchanged) (diff_tokens xs ys))) ys"
  by (induction xs ys rule: diff_tokens.induct) (auto simp: filter_map o_def)

lemma diff_tokens_same: "diff_tokens xs xs = map (Pair Unchanged) xs"
  by (induction xs) simp_all

lemma merge_runs_one_kind:
  "merge_runs (map (Pair k) xs) = (if xs = [] then [] else [(k, concat xs)])"
  by (induction xs) (auto split: list.splits)

lemma tokenize_words_Nil: "(tokenize_words s = []) = (s = [])"
  by (cases s) (auto split: list.splits)

lemma tokenize_Nil: "(tokenize mode s = []) = (s = [])"
  by (cases mode) (simp_all add: tokenize_def tokenize_chars_def tokenize_words_Nil)

lemma compute_same:
  "compute t t mode = (if t = [] then [] else [\<lparr>val = t, added = False, removed = False\<rparr>])"
  by (simp add: compute_def diff_tokens_same merge_runs_one_kind tokenize_Nil concat_tokenize
      mk_change_def)

text \<open>
  C1: for all texts and both modes, the values of the segments that are not added
  concatenate to the old text, and the values of the segments that are not removed
  concatenate to the new text.
\<close>

theorem diff_covers_both_texts:
  "concat (map val (filter (\<lambda>p. \<not> added p) (compute old new mode))) = old
   \<and> concat (map val (filter (\<lambda>p. \<not> removed p) (compute old new mode))) = new"
  using old_of_compute [of old new mode] new_of_compute [of old new mode]
  by (simp add: old_of_def new_of_def)

theorem diff_covers_both_texts_witness:
  "concat (map val (filter (\<lambda>p. \<not> added p) (compute ''a b'' ''a c'' words))) = ''a b''
   \<and> concat (map val (filter (\<lambda>p. \<not> removed p) (compute ''a b'' ''a c'' words))) = ''a c''"
  by (rule diff_covers_both_texts)

text \<open>
  C8: the diff of a text against itself has no added and no removed segment, its
  values concatenate to the text, and for a non-empty text it is the single
  unchanged segment holding the text.
\<close>

theorem diff_of_identical_texts:
  "filter (\<lambda>p. added p \<or> removed p) (compute t t mode) = []
   \<and> concat (map val (compute t t mode)) = t
   \<and> compute t t mode = (if t = [] then [] else [\<lparr>val = t, added = False, removed = False\<rparr>])"
  by (simp add: compute_same)

theorem diff_of_identical_texts_witness:
  "filter (\<lambda>p. added p \<or> removed p) (compute ''hello world'' ''hello world'' words) = []
   \<and> concat (map val (compute ''hello world'' ''hello world'' words)) = ''hello world''
   \<and> compute ''hello world'' ''hello world'' words =
       [\<lparr>val = ''hello world'', added = False, removed = False\<rparr>]"
  using diff_of_identical_texts [of "''hello world''" words] by simp

text \<open>
  C9: in word mode the diff of the empty text against "hello" is one added segment
  "hello", the diff of "hello" against the empty text is one removed segment
  "hello", and the diff of the empty text against itself is empty.
\<close>

theorem empty_text_edges:
  "compute '''' ''hello'' words = [\<lparr>val = ''hello'', added = True, removed = False\<rparr>]
   \<and> compute ''hello'' '''' words = [\<lparr>val = ''hello'', added = False, removed = True\<rparr>]
   \<and> compute '''' '''' words = []"
  by (simp add: compute_def tokenize_def cclass_of_def mk_change_def)

section \<open>Stopped animations\<close>

lemma advance_stopped: "stopped a \<Longrightarrow> advance dt a = a"
  by (simp add: advance_def)

lemma completes_stopped: "stopped a \<Longrightarrow> completes dt a = False"
  by (simp add: completes_def playing_def)

lemma stopped_stop [simp]: "stopped (stop a)"
  by (simp add: stop_def)

lemma stopped_advance [simp]: "stopped (advance dt a) = stopped a"
  by (simp add: advance_def)

lemma TypewriterText_frame_stopped:
  "stopped (animation t) \<Longrightarrow> TypewriterText_frame dt t = t"
  by (simp add: TypewriterText_frame_def playing_def)

lemma FadeOutText_frame_stopped:
  "stopped (strikeAnimation f) \<Longrightarrow> stopped (fadeAnimation f) \<Longrightarrow> FadeOutText_frame dt f = (f, False)"
  by (simp add: FadeOutText_frame_def advance_stopped completes_stopped)

lemma TypewriterText_frames_stopped:
  "stopped (animation t) \<Longrightarrow> TypewriterText_frames dts t = t"
  by (induction dts) (simp_all add: TypewriterText_frame_stopped)

lemma FadeOutText_frames_stopped:
  "stopped (strikeAnimation f) \<Longrightarrow> stopped (fadeAnimation f) \<Longrightarrow> FadeOutText_frames dts f = (f, 0)"
  by (induction dts) (simp_all add: FadeOutText_frame_stopped)

lemma stopped_TypewriterText_cleanup [simp]: "stopped (animation (TypewriterText_cleanup t))"
  by (simp add: TypewriterText_cleanup_def)

lemma stopped_FadeOutText_cleanup [simp]:
  "stopped (strikeAnimation (FadeOutText_cleanup f))" "stopped (fadeAnimation (FadeOutText_cleanup f))"
  by (simp_all add: FadeOutText_cleanup_def)

lemma tw_stopped_simps [simp]:
  "tw_stopped []" "tw_stopped (xs @ ys) = (tw_stopped xs \<and> tw_stopped ys)"
  by (simp_all add: tw_stopped_def)

lemma fo_stopped_simps [simp]:
  "fo_stopped []" "fo_stopped (xs @ ys) = (fo_stopped xs \<and> fo_stopped ys)"
  by (simp_all add: fo_stopped_def)

lemma tw_stopped_cleaned [simp]: "tw_stopped (cleaned_typewriters old new)"
  by (simp add: tw_stopped_def cleaned_typewriters_def list_all_iff)

lemma tw_stopped_cleanup_all [simp]:
  "tw_stopped (map (\<lambda>kt. TypewriterText_cleanup (snd kt)) ts)"
  by (simp add: tw_stopped_def list_all_iff)

lemma fo_stopped_cleaned [simp]: "fo_stopped (cleaned_fadeouts old)"
  by (simp add: fo_stopped_def cleaned_fadeouts_def list_all_iff)

lemma tw_stopped_frame: "tw_stopped ts \<Longrightarrow> map (TypewriterText_frame dt) ts = ts"
  by (induction ts) (simp_all add: tw_stopped_def TypewriterText_frame_stopped)

lemma fo_stopped_frame:
  "fo_stopped fs \<Longrightarrow> map (\<lambda>f. (fst f, fst (FadeOutText_frame dt (snd f)))) fs = fs"
  by (induction fs) (simp_all add: fo_stopped_def FadeOutText_frame_stopped)

lemma fo_stopped_fired: "fo_stopped fs \<Longrightarrow> fired_by dt fs = []"
  by (induction fs) (simp_all add: fo_stopped_def fired_by_def FadeOutText_frame_stopped)

lemma settled_alt:
  "settled s = (tw_stopped (detached_typewriters s) \<and> fo_stopped (detached_fadeouts s)
     \<and> (mounted s \<or> (fadeouts s = [] \<and> typewriters s = [])))"
  by (auto simp: settled_def)

section \<open>Renders and the state variable\<close>

lemma removedParts_unmount [simp]: "removedParts (unmount s) = removedParts s"
  by (simp add: unmount_def)

lemma removedParts_rerender [simp]: "removedParts (rerender lib s) = removedParts s"
  by (simp add: rerender_def Let_def split: sum.splits)

lemma props_unmount [simp]: "props (unmount s) = props s"
  by (simp add: unmount_def)

lemma props_rerender [simp]: "props (rerender lib s) = props s"
  by (simp add: rerender_def Let_def split: sum.splits)

lemma fold_handleRemoveComplete: "fold handleRemoveComplete is rp = rp \<union> set is"
  by (induction "is" arbitrary: rp) (auto simp: handleRemoveComplete_def)

lemma removedParts_step:
  "removedParts (fst (step lib e s)) = removedParts s \<union> set (snd (step lib e s))"
  by (cases e) (simp_all add: Let_def fold_handleRemoveComplete)

lemma removedParts_run:
  "removedParts (fst (run lib es s)) = removedParts s \<union> set (snd (run lib es s))"
proof (induction es arbitrary: s)
  case Nil
  show ?case by simp
next
  case (Cons e es)
  obtain s1 f1 where st: "step lib e s = (s1, f1)" by (cases "step lib e s")
  obtain s2 f2 where rn: "run lib es s1 = (s2, f2)" by (cases "run lib es s1")
  from removedParts_step [of lib e s] st have "removedParts s1 = removedParts s \<union> set f1" by simp
  moreover from Cons.IH [of s1] rn have "removedParts s2 = removedParts s1 \<union> set f2" by simp
  ultimately show ?case using st rn by auto
qed

lemma run_append:
  "run lib (es @ es') s =
     (fst (run lib es' (fst (run lib es s))),
      snd (run lib es s) @ snd (run lib es' (fst (run lib es s))))"
proof (induction es arbitrary: s)
  case Nil
  show ?case by simp
next
  case (Cons e es)
  show ?case by (simp add: Cons.IH split_beta Let_def)
qed

lemma renderPart_not_removed:
  "\<not> removed part \<Longrightarrow> renderPart sr an rp part i = renderPart sr an {} part i"
  by (simp add: renderPart_def)

lemma renderPart_not_removed_Some:
  "\<not> removed part \<Longrightarrow> renderPart sr an rp part i \<noteq> None"
  by (simp add: renderPart_def)


section \<open>Reachable states\<close>

lemma settled_unmount: "settled s \<Longrightarrow> settled (unmount s)"
  by (simp add: settled_alt unmount_def)

lemma settled_rerender: "settled s \<Longrightarrow> mounted s \<Longrightarrow> settled (rerender lib s)"
  by (simp add: settled_alt rerender_def Let_def unmount_def split: sum.splits)

lemma settled_fired_in: "settled s \<Longrightarrow> fired_in dt s = fired_by dt (map snd (fadeouts s))"
  by (simp add: fired_in_def settled_alt fo_stopped_fired)

lemma settled_advance: "settled s \<Longrightarrow> settled (advance_animators dt s)"
  by (simp add: settled_alt advance_animators_def tw_stopped_frame fo_stopped_frame)

lemma mounted_advance [simp]: "mounted (advance_animators dt s) = mounted s"
  by (simp add: advance_animators_def)

lemma settled_removedParts_update: "settled (s\<lparr>removedParts := rp\<rparr>) = settled s"
  by (simp add: settled_alt)

lemma settled_step: "settled s \<Longrightarrow> settled (fst (step lib e s))"
proof (cases e)
  case (SetProps p)
  assume s: "settled s"
  then have "settled (s\<lparr>props := p\<rparr>)" by (simp add: settled_alt)
  then show ?thesis using SetProps s by (simp add: settled_rerender)
next
  case (Frame dt)
  assume s: "settled s"
  then have "settled ((advance_animators dt s)\<lparr>removedParts := rp\<rparr>)" for rp
    by (simp add: settled_removedParts_update settled_advance)
  then show ?thesis using Frame by (simp add: Let_def settled_rerender)
next
  case Unmount
  assume "settled s"
  then show ?thesis using Unmount by (simp add: settled_unmount)
qed

lemma settled_run: "settled s \<Longrightarrow> settled (fst (run lib es s))"
  by (induction es arbitrary: s) (simp_all add: split_beta Let_def settled_step)

lemma settled_init: "settled (init lib p)"
  unfolding init_def by (rule settled_rerender) (simp_all add: settled_alt)

text \<open>
  C10: the completion callback returns a superset of the previous set that holds
  the reported index; a step of the component never takes an index out of the set,
  and over a run the set grows by exactly the indices the callbacks reported; a
  part that is not removed is rendered whatever the set holds.
\<close>

theorem removedParts_grows:
  "prev \<subseteq> handleRemoveComplete index prev \<and> index \<in> handleRemoveComplete index prev
   \<and> removedParts s \<subseteq> removedParts (fst (step lib e s))
   \<and> removedParts (fst (run lib es s)) = removedParts s \<union> set (snd (run lib es s))
   \<and> (\<not> removed part \<longrightarrow>
        renderPart sr an rp part i \<noteq> None \<and> renderPart sr an rp part i = renderPart sr an {} part i)"
  using removedParts_step [of lib e s] removedParts_run [of lib es s]
    renderPart_not_removed [of part sr an rp i] renderPart_not_removed_Some [of part sr an rp i]
  by (auto simp: handleRemoveComplete_def)

theorem removedParts_grows_witness:
  "\<not> removed \<lparr>val = ''c'', added = True, removed = False\<rparr>
   \<and> renderPart True True {2} \<lparr>val = ''c'', added = True, removed = False\<rparr> 2 \<noteq> None
   \<and> {0} \<subseteq> handleRemoveComplete 1 {0} \<and> 1 \<in> handleRemoveComplete 1 {0}"
  using removedParts_grows [where part = "\<lparr>val = ''c'', added = True, removed = False\<rparr>"
      and rp = "{2}" and i = 2 and sr = True and an = True and prev = "{0}" and index = 1
      and es = "[]" and e = Unmount and lib = spec_lib
      and s = "\<lparr>props = \<lparr>oldText = Some ''a'', newText = Some ''b'', diffMode = None,
                 showRemoved = None, animateChanges = None, className = None\<rparr>,
               removedParts = {}, typewriters = [], fadeouts = [],
               detached_typewriters = [], detached_fadeouts = [], mounted = True\<rparr>"]
  by (simp add: renderPart_def handleRemoveComplete_def)

section \<open>Removals that are not shown\<close>

lemma renderPart_hidden:
  "removed part \<Longrightarrow> \<not> added part \<Longrightarrow> renderPart False an rp part i = None"
  by (simp add: renderPart_def)

lemma fadeout_of_hidden: "fadeout_of (renderPart False an rp part i) = []"
  by (simp add: renderPart_def)

lemma fadeouts_of_Nil [simp]: "fadeouts_of [] = []"
  by (simp add: fadeouts_of_def)

lemma fadeouts_of_Cons [simp]: "fadeouts_of (n # ns) = fadeout_of n @ fadeouts_of ns"
  by (simp add: fadeouts_of_def)

lemma fadeouts_hidden: "fadeouts_of (renderParts False an rp i cs) = []"
  by (induction cs arbitrary: i) (simp_all add: fadeout_of_hidden)

lemma rerender_hidden:
  "showRemoved (props s) = Some False \<Longrightarrow> fadeouts (rerender lib s) = []"
  by (simp add: rerender_def DiffText_def unmount_def default_def fadeouts_hidden Let_def
      split: sum.splits)

lemma fired_by_Nil [simp]: "fired_by dt [] = []"
  by (simp add: fired_by_def)

lemma step_quiet:
  assumes "settled s" "fadeouts s = []" "mounted s \<longrightarrow> showRemoved (props s) = Some False"
    "keeps_hidden e"
  shows "snd (step lib e s) = [] \<and> fadeouts (fst (step lib e s)) = []
         \<and> (mounted (fst (step lib e s)) \<longrightarrow> showRemoved (props (fst (step lib e s))) = Some False)"
proof (cases e)
  case (SetProps p)
  with assms show ?thesis by (simp add: keeps_hidden_def rerender_hidden)
next
  case (Frame dt)
  with assms show ?thesis by (simp add: settled_fired_in advance_animators_def)
next
  case Unmount
  with assms show ?thesis by (simp add: unmount_def)
qed

lemma run_quiet:
  "settled s \<Longrightarrow> fadeouts s = [] \<Longrightarrow> mounted s \<longrightarrow> showRemoved (props s) = Some False \<Longrightarrow>
   list_all keeps_hidden es \<Longrightarrow> snd (run lib es s) = []"
proof (induction es arbitrary: s)
  case Nil
  show ?case by simp
next
  case (Cons e es)
  from Cons.prems have k: "keeps_hidden e" and ks: "list_all keeps_hidden es" by simp_all
  note h = step_quiet [OF Cons.prems(1) Cons.prems(2) Cons.prems(3) k, of lib]
  have st: "settled (fst (step lib e s))" using Cons.prems(1) by (rule settled_step)
  from Cons.IH [OF st] h ks
  have "snd (run lib es (fst (step lib e s))) = []" by simp
  with h show ?case by (simp add: split_beta Let_def)
qed

lemma init_hidden:
  "showRemoved p = Some False \<Longrightarrow>
   fadeouts (init lib p) = [] \<and> showRemoved (props (init lib p)) = Some False"
  by (simp add: init_def rerender_hidden)

lemma step_SetProps_quiet:
  assumes "settled s" "showRemoved p = Some False"
  shows "fadeouts (fst (step lib (SetProps p) s)) = []
    \<and> (mounted (fst (step lib (SetProps p) s)) \<longrightarrow>
         showRemoved (props (fst (step lib (SetProps p) s))) = Some False)"
  using assms by (auto simp: settled_alt rerender_hidden split: if_splits)

text \<open>
  C6: with \<^verbatim>\<open>showRemoved\<close> false a removed part renders nothing, whatever
  \<^verbatim>\<open>animateChanges\<close> and the set of completed removals are; the render holds no
  \<^verbatim>\<open>FadeOutText\<close> element, so no fade animation starts; and as long as \<^verbatim>\<open>showRemoved\<close>
  stays false no completion callback is called, from the first render on or from
  the moment the prop is switched off in any state the component has reached.
\<close>

theorem hidden_removals:
  "(removed part \<and> \<not> added part \<longrightarrow> renderPart False an rp part i = None)
   \<and> fadeouts_of (renderParts False an rp i cs) = []
   \<and> (showRemoved p = Some False \<and> list_all keeps_hidden es \<longrightarrow>
        snd (run lib es (init lib p)) = []
        \<and> snd (run lib es (fst (step lib (SetProps p) (fst (run lib es0 (init lib p0)))))) = [])"
proof -
  have a: "removed part \<and> \<not> added part \<longrightarrow> renderPart False an rp part i = None"
    by (simp add: renderPart_hidden)
  have b: "fadeouts_of (renderParts False an rp i cs) = []"
    by (rule fadeouts_hidden)
  have c: "snd (run lib es (init lib p)) = []"
    if "showRemoved p = Some False" "list_all keeps_hidden es"
    using that init_hidden [of p lib] run_quiet [of "init lib p" es lib] settled_init [of lib p]
    by simp
  have d: "snd (run lib es (fst (step lib (SetProps p) (fst (run lib es0 (init lib p0)))))) = []"
    if h: "showRemoved p = Some False" "list_all keeps_hidden es"
  proof -
    let ?s = "fst (run lib es0 (init lib p0))"
    have st: "settled ?s" by (simp add: settled_run settled_init)
    note q = step_SetProps_quiet [OF st h(1), of lib]
    have st': "settled (fst (step lib (SetProps p) ?s))" using st by (rule settled_step)
    show ?thesis
      by (rule run_quiet) (use q h(2) st' in simp_all)
  qed
  from a b c d show ?thesis by blast
qed

theorem hidden_removals_witness:
  "removed \<lparr>val = ''b'', added = False, removed = True\<rparr>
   \<and> \<not> added \<lparr>val = ''b'', added = False, removed = True\<rparr>
   \<and> renderPart False True {} \<lparr>val = ''b'', added = False, removed = True\<rparr> 1 = None
   \<and> showRemoved props_hidden = Some False \<and> list_all keeps_hidden [Frame 1, Frame 1]
   \<and> snd (run spec_lib [Frame 1, Frame 1] (init spec_lib props_hidden)) = []
   \<and> snd (run spec_lib [Frame 1, Frame 1]
            (fst (step spec_lib (SetProps props_hidden)
                   (fst (run spec_lib [Frame (1/2)] (init spec_lib props_ab)))))) = []"
proof -
  note h = hidden_removals [where part = "\<lparr>val = ''b'', added = False, removed = True\<rparr>"
      and an = True and rp = "{}" and i = 1 and cs = "[]" and p = props_hidden
      and es = "[Frame 1, Frame 1]" and lib = spec_lib and ?es0.0 = "[Frame (1/2)]"
      and ?p0.0 = props_ab]
  have a: "removed \<lparr>val = ''b'', added = False, removed = True\<rparr>"
    "\<not> added \<lparr>val = ''b'', added = False, removed = True\<rparr>"
    by simp_all
  have b: "showRemoved props_hidden = Some False" by (simp add: props_hidden_def)
  have c: "list_all keeps_hidden [Frame 1, Frame 1]" by (simp add: keeps_hidden_def)
  from h a b c show ?thesis by blast
qed

section \<open>Unmounting\<close>

lemma step_unmounted:
  assumes "settled s" "\<not> mounted s"
  shows "step lib e s = (s, [])"
proof (cases e)
  case (SetProps p)
  with assms show ?thesis by simp
next
  case (Frame dt)
  from assms have f: "fired_in dt s = []" by (simp add: settled_fired_in settled_alt)
  from assms have "advance_animators dt s = s"
    by (simp add: advance_animators_def settled_alt tw_stopped_frame fo_stopped_frame)
  with f Frame show ?thesis by simp
next
  case Unmount
  with assms show ?thesis by simp
qed

lemma run_unmounted: "settled s \<Longrightarrow> \<not> mounted s \<Longrightarrow> run lib es s = (s, [])"
  by (induction es) (simp_all add: step_unmounted)

text \<open>
  C7: the cleanup of either animator stops every animation it started; after it no
  frame changes the text of a \<^verbatim>\<open>TypewriterText\<close> and no frame calls the completion
  callback of a \<^verbatim>\<open>FadeOutText\<close>.  After the component is unmounted, in any state it
  has reached, no animator is left mounted, every animation is stopped, and no
  later event changes the state or calls a completion callback.
\<close>

theorem unmount_cancels:
  "stopped (animation (TypewriterText_cleanup t))
   \<and> stopped (strikeAnimation (FadeOutText_cleanup f)) \<and> stopped (fadeAnimation (FadeOutText_cleanup f))
   \<and> TypewriterText_frames dts (TypewriterText_cleanup t) = TypewriterText_cleanup t
   \<and> motionText (TypewriterText_cleanup t) = motionText t
   \<and> FadeOutText_frames dts (FadeOutText_cleanup f) = (FadeOutText_cleanup f, 0)
   \<and> run lib es (fst (step lib Unmount (fst (run lib es0 (init lib p0)))))
       = (fst (step lib Unmount (fst (run lib es0 (init lib p0)))), [])
   \<and> typewriters (fst (step lib Unmount (fst (run lib es0 (init lib p0))))) = []
   \<and> fadeouts (fst (step lib Unmount (fst (run lib es0 (init lib p0))))) = []
   \<and> tw_stopped (detached_typewriters (fst (step lib Unmount (fst (run lib es0 (init lib p0))))))
   \<and> fo_stopped (detached_fadeouts (fst (step lib Unmount (fst (run lib es0 (init lib p0))))))"
proof -
  let ?s = "fst (run lib es0 (init lib p0))"
  let ?u = "fst (step lib Unmount ?s)"
  have st: "settled ?s" by (simp add: settled_run settled_init)
  have su: "settled ?u" using st by (rule settled_step)
  have nm: "\<not> mounted ?u" by (simp add: unmount_def)
  have r: "run lib es ?u = (?u, [])" using su nm by (rule run_unmounted)
  have e: "typewriters ?u = [] \<and> fadeouts ?u = []"
    using su nm by (simp add: settled_alt)
  have d: "tw_stopped (detached_typewriters ?u) \<and> fo_stopped (detached_fadeouts ?u)"
    using su by (simp add: settled_alt)
  have a: "TypewriterText_frames dts (TypewriterText_cleanup t) = TypewriterText_cleanup t"
    by (simp add: TypewriterText_frames_stopped)
  have b: "FadeOutText_frames dts (FadeOutText_cleanup f) = (FadeOutText_cleanup f, 0)"
    by (simp add: FadeOutText_frames_stopped)
  have c: "motionText (TypewriterText_cleanup t) = motionText t"
    by (simp add: TypewriterText_cleanup_def)
  from r e d a b c show ?thesis by simp
qed

theorem unmount_cancels_witness:
  "snd (run spec_lib [Frame 1]
         (fst (step spec_lib Unmount (fst (run spec_lib [Frame (1/2)] (init spec_lib props_ab)))))) = []
   \<and> snd (FadeOutText_frames [1] (FadeOutText_cleanup FadeOutText_effect)) = 0
   \<and> motionText (TypewriterText_frames [1] (TypewriterText_cleanup (TypewriterText_mount ''hi'')))
       = motionText (TypewriterText_mount ''hi'')"
proof -
  note h = unmount_cancels [of "TypewriterText_mount ''hi''" FadeOutText_effect "[1]" spec_lib
      "[Frame 1]" "[Frame (1/2)]" props_ab]
  from h show ?thesis by (metis snd_conv)
qed

section \<open>The reveal of added text\<close>

lemma total_Nil [simp]: "total [] = 0"
  by (simp add: total_def)

lemma total_Cons [simp]: "total (dt # dts) = max 0 dt + total dts"
  by (simp add: total_def)

lemma total_append [simp]: "total (xs @ ys) = total xs + total ys"
  by (simp add: total_def)


lemma reveal_duration_bounds: "1/2 \<le> reveal_duration n \<and> reveal_duration n \<le> 3/2"
  by (simp add: reveal_duration_def)

lemma milliseconds_reveal_duration:
  "500 \<le> milliseconds (reveal_duration n) \<and> milliseconds (reveal_duration n) \<le> 1500"
  using milliseconds_mono [of "1/2" "reveal_duration n"]
    milliseconds_mono [of "reveal_duration n" "3/2"] reveal_duration_bounds [of n]
  by simp

lemma reveal_duration_long: "38 \<le> n \<Longrightarrow> reveal_duration n = 3/2"
proof -
  assume n: "38 \<le> n"
  then have "(38::real) \<le> real n" by simp
  then have "3/2 \<le> real n * (5764607523034235 / 2 ^ 57)" by simp
  then have "double (3/2) \<le> double (real n * (5764607523034235 / 2 ^ 57))"
    by (intro double_mono) simp_all
  moreover have "double (3/2) = 3/2" using double_dyadic [of 3 1] by simp
  ultimately show ?thesis
    unfolding reveal_duration_def js_times_def double_4_100 by simp
qed

lemma reveal_duration_short: "n \<le> 12 \<Longrightarrow> reveal_duration n = 1/2"
proof -
  assume n: "n \<le> 12"
  then have "real n \<le> 12" by simp
  then have "real n * (5764607523034235 / 2 ^ 57) \<le> 1/2" by simp
  then have "double (real n * (5764607523034235 / 2 ^ 57)) \<le> double (1/2)"
    by (intro double_mono) simp_all
  moreover have "double (1/2) = 1/2" using double_dyadic [of 1 1] by simp
  ultimately show ?thesis
    unfolding reveal_duration_def js_times_def double_4_100 by simp
qed

lemma reveal_duration_35: "reveal_duration 35 = 6305039478318695 / 2 ^ 52"
proof -
  have "real 35 = 35" by simp
  then show ?thesis unfolding reveal_duration_def js_times_def by (simp only: double_35) simp
qed

lemma currentTime_reveal_at [simp]:
  "currentTime (reveal_at t T) = of_int (js_round (1000 * T))"
  by (simp add: currentTime_def reveal_at_def)

lemma finished_reveal_at:
  "finished (reveal_at t T)
     = (milliseconds (reveal_duration (length t)) \<le> of_int (js_round (1000 * T)))"
  by (simp add: finished_def) (simp add: reveal_at_def)

lemma finished_reveal_at_mono:
  "finished (reveal_at t T) \<Longrightarrow> T \<le> T' \<Longrightarrow> finished (reveal_at t T')"
proof -
  assume f: "finished (reveal_at t T)" and le: "T \<le> T'"
  from le have "js_round (1000 * T) \<le> js_round (1000 * T')" by (intro js_round_mono) simp
  then have "real_of_int (js_round (1000 * T)) \<le> real_of_int (js_round (1000 * T'))" by simp
  with f show ?thesis by (simp add: finished_reveal_at)
qed

lemma progress_finished: "finished (reveal_at t T) \<Longrightarrow> progress (reveal_at t T) = 1"
  using milliseconds_reveal_duration [of "length t"]
  by (simp add: progress_def) (simp add: finished_reveal_at)

lemma double_1 [simp]: "double 1 = 1"
  using double_of_nat [of 1] by simp

lemma progress_bounds: "0 \<le> progress a \<and> progress a \<le> 1"
proof (cases "currentTime a \<le> 0 \<or> finished a")
  case True
  then show ?thesis by (auto simp: progress_def)
next
  case False
  then have c: "0 < currentTime a" "currentTime a < milliseconds (duration a)"
    by (simp_all add: finished_def)
  then have "0 \<le> currentTime a / milliseconds (duration a)"
    "currentTime a / milliseconds (duration a) \<le> 1" by simp_all
  then have "0 \<le> double (currentTime a / milliseconds (duration a))"
    "double (currentTime a / milliseconds (duration a)) \<le> double 1"
    by (simp_all only: double_nonneg double_mono)
  with False show ?thesis by (simp add: progress_def js_divide_def)
qed

lemma progress_reveal_mono:
  assumes "T \<le> T'"
  shows "progress (reveal_at t T) \<le> progress (reveal_at t T')"
proof -
  let ?r = "real_of_int (js_round (1000 * T))" and ?r' = "real_of_int (js_round (1000 * T'))"
  let ?M = "milliseconds (reveal_duration (length t))"
  from assms have "js_round (1000 * T) \<le> js_round (1000 * T')" by (intro js_round_mono) simp
  then have r: "?r \<le> ?r'" by simp
  have M: "0 < ?M" using milliseconds_reveal_duration [of "length t"] by simp
  show ?thesis
  proof (cases "?r \<le> 0")
    case True
    then have "progress (reveal_at t T) = 0" by (simp add: progress_def)
    then show ?thesis using progress_bounds [of "reveal_at t T'"] by simp
  next
    case pos: False
    show ?thesis
    proof (cases "finished (reveal_at t T')")
      case True
      then have "progress (reveal_at t T') = 1" by (rule progress_finished)
      then show ?thesis using progress_bounds [of "reveal_at t T"] by simp
    next
      case False
      then have nf: "\<not> finished (reveal_at t T)" using finished_reveal_at_mono [OF _ assms] by blast
      have p: "progress (reveal_at t T) = double (?r / ?M)"
        using pos nf by (simp add: progress_def js_divide_def) (simp add: reveal_at_def)
      have p': "progress (reveal_at t T') = double (?r' / ?M)"
        using pos r False by (simp add: progress_def js_divide_def) (simp add: reveal_at_def)
      have "?r / ?M \<le> ?r' / ?M" using r M by (simp add: divide_right_mono)
      moreover have "0 \<le> ?r / ?M" using pos M by simp
      ultimately show ?thesis unfolding p p' by (intro double_mono)
    qed
  qed
qed

lemma animated_nonneg: "0 \<le> animated (real n) a"
  using progress_bounds [of a] by (simp add: animated_def js_times_def double_nonneg)

lemma animated_reveal_mono:
  "T \<le> T' \<Longrightarrow> animated (real n) (reveal_at t T) \<le> animated (real n) (reveal_at t T')"
proof -
  assume "T \<le> T'"
  then have "progress (reveal_at t T) \<le> progress (reveal_at t T')" by (rule progress_reveal_mono)
  then have "real n * progress (reveal_at t T) \<le> real n * progress (reveal_at t T')"
    by (simp add: mult_left_mono)
  moreover have "0 \<le> real n * progress (reveal_at t T)"
    using progress_bounds [of "reveal_at t T"] by simp
  ultimately show ?thesis unfolding animated_def js_times_def by (intro double_mono)
qed

lemma length_shown_mono: "T \<le> T' \<Longrightarrow> length (shown t T) \<le> length (shown t T')"
proof -
  assume "T \<le> T'"
  then have "animated (real (length t)) (reveal_at t T) \<le> animated (real (length t)) (reveal_at t T')"
    by (rule animated_reveal_mono)
  then have "\<lceil>animated (real (length t)) (reveal_at t T)\<rceil>
      \<le> \<lceil>animated (real (length t)) (reveal_at t T')\<rceil>"
    by (rule ceiling_mono)
  then show ?thesis by (simp add: shown_def nat_mono min.coboundedI2)
qed

lemma shown_finished: "finished (reveal_at t T) \<Longrightarrow> T \<le> T' \<Longrightarrow> shown t T' = shown t T"
proof -
  assume f: "finished (reveal_at t T)" and le: "T \<le> T'"
  from f le have f': "finished (reveal_at t T')" by (rule finished_reveal_at_mono)
  show ?thesis by (simp add: shown_def animated_def progress_finished [OF f] progress_finished [OF f'])
qed

lemma shown_0: "shown t 0 = []"
  by (simp add: shown_def animated_def progress_def js_round_def js_times_def)

lemma slice0_shown: "slice0 t \<lceil>animated (real (length t)) (reveal_at t T)\<rceil> = shown t T"
proof -
  have "- 1 < animated (real (length t)) (reveal_at t T)"
    using animated_nonneg [of "length t" "reveal_at t T"] by linarith
  then have "0 \<le> \<lceil>animated (real (length t)) (reveal_at t T)\<rceil>"
    by (simp only: zero_le_ceiling)
  then show ?thesis by (simp add: slice0_def shown_def)
qed

lemma advance_reveal_at: "advance dt (reveal_at t T) = reveal_at t (T + max 0 dt)"
  by (simp add: advance_def reveal_at_def)

lemma TypewriterText_frame_reveal:
  assumes "text_prop s = t" "animation s = reveal_at t e"
    "e = T \<or> (finished (reveal_at t e) \<and> e \<le> T)"
  shows "text_prop (TypewriterText_frame dt s) = t
    \<and> (\<exists>e'. animation (TypewriterText_frame dt s) = reveal_at t e'
          \<and> (e' = T + max 0 dt \<or> (finished (reveal_at t e') \<and> e' \<le> T + max 0 dt)))
    \<and> (playing (animation s) \<or> motionText s = shown t T \<longrightarrow>
         motionText (TypewriterText_frame dt s) = shown t (T + max 0 dt))"
proof (cases "playing (animation s)")
  case True
  then have nf: "\<not> finished (reveal_at t e)" using assms(2) by (simp add: playing_def split: if_splits)
  with assms(3) have e: "e = T" by blast
  have fr: "TypewriterText_frame dt s =
      (s\<lparr>animation := reveal_at t (T + max 0 dt)\<rparr>)\<lparr>motionText := shown t (T + max 0 dt)\<rparr>"
    using True assms(1,2) e
    by (simp add: TypewriterText_frame_def Let_def onUpdate_def advance_reveal_at slice0_shown)
  show ?thesis unfolding fr using assms(1) by auto
next
  case False
  have ns: "\<not> stopped (animation s)" using assms(2) by (simp add: reveal_at_def)
  with False have fin: "finished (reveal_at t e)" using assms(2)
    by (auto simp: playing_def split: if_splits)
  with assms(3) have le: "e \<le> T" by auto
  have same: "TypewriterText_frame dt s = s" using False by (simp add: TypewriterText_frame_def)
  have fT: "finished (reveal_at t T)" using fin le by (rule finished_reveal_at_mono)
  have sh: "shown t (T + max 0 dt) = shown t T" using fT by (rule shown_finished) simp
  have "e \<le> T + max 0 dt" using le by simp
  with fin assms(1,2) False show ?thesis unfolding same sh by auto
qed

lemma TypewriterText_frames_reveal:
  assumes "text_prop s = t" "animation s = reveal_at t e"
    "e = T \<or> (finished (reveal_at t e) \<and> e \<le> T)"
    "motionText s = shown t T"
  shows "motionText (TypewriterText_frames dts s) = shown t (T + total dts)"
  using assms
proof (induction dts arbitrary: s T e)
  case Nil
  then show ?case by simp
next
  case (Cons dt dts)
  note h = TypewriterText_frame_reveal [OF Cons.prems(1,2,3), of dt]
  from h obtain e' where e': "animation (TypewriterText_frame dt s) = reveal_at t e'"
    "e' = T + max 0 dt \<or> (finished (reveal_at t e') \<and> e' \<le> T + max 0 dt)" by blast
  have t': "text_prop (TypewriterText_frame dt s) = t" using h by blast
  have m': "motionText (TypewriterText_frame dt s) = shown t (T + max 0 dt)"
    using h Cons.prems(4) by blast
  have "motionText (TypewriterText_frames dts (TypewriterText_frame dt s))
        = shown t (T + max 0 dt + total dts)"
    using t' e' m' by (rule Cons.IH)
  then show ?case by (simp add: add.assoc)
qed

lemma animate_reveal_at: "animate (reveal_duration (length t)) 0 = reveal_at t 0"
  by (simp add: animate_def reveal_at_def)

lemma playing_reveal_at_0: "playing (reveal_at t 0)"
  using milliseconds_reveal_duration [of "length t"]
  by (simp add: playing_def finished_reveal_at js_round_def) (simp add: reveal_at_def)

lemma TypewriterText_started_shown:
  assumes "text_prop s = t" "animation s = reveal_at t 0"
  shows "motionText (TypewriterText_frames (dt # dts) s) = shown t (total (dt # dts))"
proof -
  have e0: "(0::real) = 0 \<or> (finished (reveal_at t 0) \<and> (0::real) \<le> 0)" by simp
  note h = TypewriterText_frame_reveal [OF assms e0, of dt]
  from h obtain e' where e': "animation (TypewriterText_frame dt s) = reveal_at t e'"
    "e' = 0 + max 0 dt \<or> (finished (reveal_at t e') \<and> e' \<le> 0 + max 0 dt)" by blast
  have t': "text_prop (TypewriterText_frame dt s) = t" using h by blast
  have "playing (animation s)" using assms(2) playing_reveal_at_0 by simp
  then have m': "motionText (TypewriterText_frame dt s) = shown t (0 + max 0 dt)" using h by blast
  have "motionText (TypewriterText_frames dts (TypewriterText_frame dt s))
        = shown t (0 + max 0 dt + total dts)"
    using t' e' m' by (rule TypewriterText_frames_reveal)
  then show ?thesis by simp
qed

lemma TypewriterText_mount_shown:
  "motionText (TypewriterText_frames dts (TypewriterText_mount t)) = shown t (total dts)"
  using TypewriterText_frames_reveal [of "TypewriterText_mount t" t 0 0 dts]
  by (simp add: TypewriterText_mount_def animate_reveal_at shown_0)

lemma TypewriterText_update_shown:
  "text_prop s \<noteq> t \<Longrightarrow>
   motionText (TypewriterText_frames (dt # dts) (TypewriterText_update t s)) = shown t (total (dt # dts))"
  by (rule TypewriterText_started_shown) (simp_all add: TypewriterText_update_def animate_reveal_at)

lemma shown_full:
  assumes n: "length t < 2 ^ 53" and T: "reveal_duration (length t) \<le> T"
  shows "shown t T = t"
proof (cases "finished (reveal_at t T)")
  case True
  then have "progress (reveal_at t T) = 1" by (rule progress_finished)
  then have "animated (real (length t)) (reveal_at t T) = real (length t)"
    using n by (simp add: animated_def js_times_def double_of_nat)
  then show ?thesis by (simp add: shown_def)
next
  case False
  let ?n = "length t"
  let ?D = "reveal_duration ?n"
  let ?M = "milliseconds ?D"
  let ?r = "real_of_int (js_round (1000 * T))"
  have D: "1/2 \<le> ?D" "?D \<le> 3/2" using reveal_duration_bounds [of ?n] by simp_all
  have rM: "?r < ?M" using False by (simp add: finished_reveal_at)
  have "1000 * T + 1/2 < ?r + 1" unfolding js_round_def by linarith
  with T have r: "1000 * ?D - 1/2 < ?r" by simp
  have n37: "?n \<le> 37"
  proof (rule ccontr)
    assume "\<not> ?n \<le> 37"
    then have "38 \<le> ?n" by simp
    then have d: "?D = 3/2" by (rule reveal_duration_long)
    have "(1499::real) < ?r" using r unfolding d by simp
    then have "1499 < js_round (1000 * T)" by linarith
    then have "1500 \<le> js_round (1000 * T)" by simp
    then have "(1500::real) \<le> ?r" by linarith
    with rM show False unfolding d by simp
  qed
  have c: "nat \<lceil>?D * 1000\<rceil> < 2 ^ 53"
  proof -
    have "\<lceil>?D * 1000\<rceil> \<le> 1500" using D by (simp add: ceiling_le_iff)
    then have "nat \<lceil>?D * 1000\<rceil> \<le> 1500" by linarith
    moreover have "(1500::nat) < 2 ^ 53" by simp
    ultimately show ?thesis by (rule le_less_trans)
  qed
  have "0 \<le> \<lceil>?D * 1000\<rceil>" using D by (simp add: zero_le_ceiling) 
  then have rc: "real (nat \<lceil>?D * 1000\<rceil>) = real_of_int \<lceil>?D * 1000\<rceil>" by simp
  have "?M \<le> double (real (nat \<lceil>?D * 1000\<rceil>))"
    unfolding milliseconds_def js_times_def using D by (intro double_mono) (simp_all add: rc)
  also have "\<dots> = real (nat \<lceil>?D * 1000\<rceil>)" using c by (rule double_of_nat)
  also have "\<dots> = real_of_int \<lceil>?D * 1000\<rceil>" by (rule rc)
  also have "\<dots> < ?D * 1000 + 1" by linarith
  finally have M: "?M < 1000 * ?D + 1" by simp
  have Mpos: "0 < ?M" using milliseconds_reveal_duration [of ?n] by simp
  have rpos: "0 < ?r" using r D by simp
  have "127 * ?M \<le> 128 * ?r" using r M D by simp
  then have q: "127/128 \<le> ?r / ?M" using Mpos by (simp add: field_simps)
  have p: "progress (reveal_at t T) = double (?r / ?M)"
    using False rpos by (simp add: progress_def js_divide_def) (simp add: reveal_at_def)
  have "double (127/128) \<le> double (?r / ?M)" using q by (intro double_mono) simp_all
  moreover have "double (127/128) = 127/128" using double_dyadic [of 127 7] by simp
  ultimately have p127: "127/128 \<le> progress (reveal_at t T)" by (simp add: p)
  have eq: "real ?n * (127/128) = real (127 * ?n) / 2 ^ 7" by simp
  have "real ?n * (127/128) \<le> real ?n * progress (reveal_at t T)"
    using p127 by (intro mult_left_mono) simp_all
  then have "double (real ?n * (127/128)) \<le> double (real ?n * progress (reveal_at t T))"
    by (intro double_mono) simp_all
  moreover have "double (real (127 * ?n) / 2 ^ 7) = real (127 * ?n) / 2 ^ 7"
    by (rule double_dyadic) (use n37 in simp_all)
  ultimately have "real ?n * (127/128) \<le> animated (real ?n) (reveal_at t T)"
    unfolding animated_def js_times_def eq by (simp only:)
  moreover have "real ?n - 1 < real ?n * (127/128)" using n37 by simp
  ultimately have "real ?n - 1 < animated (real ?n) (reveal_at t T)" by linarith
  then have "int ?n \<le> \<lceil>animated (real ?n) (reveal_at t T)\<rceil>" by linarith
  then show ?thesis by (simp add: shown_def)
qed

section \<open>The fade of removed text\<close>

lemma FadeOutText_effect_fade_at: "FadeOutText_effect = fade_at 0"
  by (simp add: FadeOutText_effect_def fade_at_def animate_def)

text \<open>
  The fade has run for its 500 ms when the time since the effect, rounded to a whole
  millisecond, is 800 ms.
\<close>

lemma finished_fade_at: "finished (fadeAnimation (fade_at e)) = (1599/2000 \<le> e)"
proof -
  have "finished (fadeAnimation (fade_at e)) = (800 \<le> js_round (1000 * e))"
    by (auto simp: finished_def currentTime_def fade_at_def)
  also have "\<dots> = (1599/2000 \<le> e)"
    by (auto simp: js_round_def le_floor_iff)
  finally show ?thesis .
qed

lemma advance_fade_at:
  "advance dt (fadeAnimation (fade_at e)) = fadeAnimation (fade_at (e + max 0 dt))"
  "advance dt (strikeAnimation (fade_at e)) = strikeAnimation (fade_at (e + max 0 dt))"
  by (simp_all add: advance_def fade_at_def)

lemma completes_fade_at:
  "completes dt (fadeAnimation (fade_at e)) = (e < 1599/2000 \<and> 1599/2000 \<le> e + max 0 dt)"
proof -
  have "\<not> stopped (fadeAnimation (fade_at e))" by (simp add: fade_at_def)
  then show ?thesis
    by (auto simp: completes_def playing_def advance_fade_at finished_fade_at)
qed

lemma FadeOutText_frame_fade_at:
  "FadeOutText_frame dt (fade_at e)
     = (fade_at (e + max 0 dt), e < 1599/2000 \<and> 1599/2000 \<le> e + max 0 dt)"
proof -
  have "\<lparr>strikeAnimation = strikeAnimation (fade_at (e + max 0 dt)),
         fadeAnimation = fadeAnimation (fade_at (e + max 0 dt))\<rparr> = fade_at (e + max 0 dt)"
    by simp
  then show ?thesis
    by (simp only: FadeOutText_frame_def advance_fade_at completes_fade_at)
qed



section \<open>Concrete runs\<close>

lemma compute_ab: "compute ''a b'' ''a c'' words =
  [\<lparr>val = ''a '', added = False, removed = False\<rparr>,
   \<lparr>val = ''b'', added = False, removed = True\<rparr>,
   \<lparr>val = ''c'', added = True, removed = False\<rparr>]"
  by (simp add: compute_def tokenize_def cclass_of_def mk_change_def)

lemma compute_xy: "compute ''x y'' ''x z'' words =
  [\<lparr>val = ''x '', added = False, removed = False\<rparr>,
   \<lparr>val = ''y'', added = False, removed = True\<rparr>,
   \<lparr>val = ''z'', added = True, removed = False\<rparr>]"
  by (simp add: compute_def tokenize_def cclass_of_def mk_change_def)

lemma string_of_nat_digits [simp]:
  "string_of_nat 0 = ''0''" "string_of_nat (Suc 0) = ''1''" "string_of_nat (Suc (Suc 0)) = ''2''"
  by code_simp+

lemma advance_animators_fields [simp]:
  "props (advance_animators dt s) = props s"
  "removedParts (advance_animators dt s) = removedParts s"
  by (simp_all add: advance_animators_def)

lemma diff_ab: "diffFunction spec_lib words (Some ''a b'') (Some ''a c'') = Inr (compute ''a b'' ''a c'' words)"
  by (simp add: diffFunction_def spec_lib_def spec_diff_def)

lemma diff_xy: "diffFunction spec_lib words (Some ''x y'') (Some ''x z'') = Inr (compute ''x y'' ''x z'' words)"
  by (simp add: diffFunction_def spec_lib_def spec_diff_def)

lemma view_ab: "DiffText spec_lib props_ab rp =
   Inr \<lparr>el_className = '''',
        el_children =
          [Some (span_el ''unchanged-0'' [] ''a ''),
           (if 1 \<in> rp then None else Some (FadeOutText_el ''removed-1'' ''b'' 1)),
           Some (TypewriterText_el ''added-2'' ''c'' ''rgb(34, 197, 94)'' ''rgba(34, 197, 94, 0.15)'')]\<rparr>"
  by (simp add: DiffText_def props_ab_def default_def diff_ab compute_ab renderPart_def eval_nat_numeral)

lemma view_xy: "DiffText spec_lib props_xy rp =
   Inr \<lparr>el_className = '''',
        el_children =
          [Some (span_el ''unchanged-0'' [] ''x ''),
           (if 1 \<in> rp then None else Some (FadeOutText_el ''removed-1'' ''y'' 1)),
           Some (TypewriterText_el ''added-2'' ''z'' ''rgb(34, 197, 94)'' ''rgba(34, 197, 94, 0.15)'')]\<rparr>"
  by (simp add: DiffText_def props_xy_def default_def diff_xy compute_xy renderPart_def eval_nat_numeral)

lemma fadeouts_init_ab: "fadeouts (init spec_lib props_ab) = [(''removed-1'', 1, FadeOutText_effect)]"
  by (simp add: init_def rerender_def view_ab Let_def)

lemma mounted_init_ab: "mounted (init spec_lib props_ab)"
  by (simp add: init_def rerender_def view_ab Let_def)

lemma props_init [simp]: "props (init lib p) = p"
  by (simp add: init_def)

lemma removedParts_init [simp]: "removedParts (init lib p) = {}"
  by (simp add: init_def)

lemma fires_at_08: "snd (FadeOutText_frame (4/5) FadeOutText_effect)"
  by (simp add: FadeOutText_effect_fade_at FadeOutText_frame_fade_at)

lemma step_frame_ab:
  "snd (step spec_lib (Frame (4/5)) (init spec_lib props_ab)) = [1]
   \<and> removedParts (fst (step spec_lib (Frame (4/5)) (init spec_lib props_ab))) = {1}
   \<and> mounted (fst (step spec_lib (Frame (4/5)) (init spec_lib props_ab)))"
proof -
  have f: "fired_in (4/5) (init spec_lib props_ab) = [1]"
    by (simp add: settled_fired_in settled_init fadeouts_init_ab fired_by_def fires_at_08)
  have m: "mounted (rerender spec_lib s)" if "mounted s" "props s = props_ab" for s
    using that by (simp add: rerender_def view_ab Let_def)
  show ?thesis
    using f mounted_init_ab by (simp add: Let_def handleRemoveComplete_def m)
qed

text \<open>A change of props renders again and leaves the state variable as it is.\<close>

lemma removedParts_SetProps: "removedParts (fst (step lib (SetProps p) s)) = removedParts s"
  by simp

text \<open>
  C2: the set of completed removals is not reset when a new diff is computed.
  The component shows the diff of "a b" against "a c"; the fade of the removed
  "b", segment 1, completes after 0.8 s and index 1 enters the set.  The props
  then change to "x y" against "x z", whose segment 1 is the removed "y".  The set
  still holds index 1, and the render of the new diff has nothing in the place of
  "y", which a component mounted with the new props shows fading out.
\<close>

theorem stale_index_hides_new_removal:
  "diffFunction spec_lib words (Some ''x y'') (Some ''x z'') =
     Inr [\<lparr>val = ''x '', added = False, removed = False\<rparr>,
          \<lparr>val = ''y'', added = False, removed = True\<rparr>,
          \<lparr>val = ''z'', added = True, removed = False\<rparr>]
   \<and> snd (run spec_lib [Frame (4/5), SetProps props_xy] (init spec_lib props_ab)) = [1]
   \<and> removedParts (fst (run spec_lib [Frame (4/5), SetProps props_xy] (init spec_lib props_ab))) = {1}
   \<and> view spec_lib (fst (run spec_lib [Frame (4/5), SetProps props_xy] (init spec_lib props_ab))) =
       Inr \<lparr>el_className = '''',
            el_children =
              [Some (span_el ''unchanged-0'' [] ''x ''), None,
               Some (TypewriterText_el ''added-2'' ''z'' ''rgb(34, 197, 94)''
                       ''rgba(34, 197, 94, 0.15)'')]\<rparr>
   \<and> view spec_lib (init spec_lib props_xy) =
       Inr \<lparr>el_className = '''',
            el_children =
              [Some (span_el ''unchanged-0'' [] ''x ''),
               Some (FadeOutText_el ''removed-1'' ''y'' 1),
               Some (TypewriterText_el ''added-2'' ''z'' ''rgb(34, 197, 94)''
                       ''rgba(34, 197, 94, 0.15)'')]\<rparr>"
proof -
  let ?s1 = "fst (step spec_lib (Frame (4/5)) (init spec_lib props_ab))"
  note h = step_frame_ab
  have r: "run spec_lib [Frame (4/5), SetProps props_xy] (init spec_lib props_ab)
           = (rerender spec_lib (?s1\<lparr>props := props_xy\<rparr>), [1])"
    using h by (simp add: split_beta Let_def del: step.simps(3)) 
  show ?thesis
    unfolding r using h by (simp add: view_def view_xy diff_xy compute_xy)
qed

text \<open>
  C3, as amended: when both texts are strings the component renders and raises no
  error; it adds no failure of its own and replaces no text: an error of the diff
  function on the texts it is handed is the result of the component, and a result
  of the diff function is rendered.
\<close>

theorem string_texts_render:
  "(\<exists>el. DiffText spec_lib (p\<lparr>oldText := Some old, newText := Some new\<rparr>) rp = Inr el)
   \<and> (diffFunction lib (default words (diffMode p)) (oldText p) (newText p) = Inl e \<longrightarrow>
        DiffText lib p rp = Inl e)
   \<and> (diffFunction lib (default words (diffMode p)) (oldText p) (newText p) = Inr cs \<longrightarrow>
        DiffText lib p rp =
          Inr \<lparr>el_className = default '''' (className p),
               el_children = renderParts (default True (showRemoved p))
                 (default True (animateChanges p)) rp 0 cs\<rparr>)"
  by (simp add: DiffText_def diffFunction_def spec_lib_def spec_diff_def)

theorem string_texts_render_witness:
  "diffFunction spec_lib (default words (diffMode props_null)) (oldText props_null)
     (newText props_null) = Inl TypeError
   \<and> DiffText spec_lib props_null {} = Inl TypeError
   \<and> diffFunction spec_lib (default words (diffMode props_empty)) (oldText props_empty)
       (newText props_empty) = Inr (compute '''' ''hello'' words)
   \<and> DiffText spec_lib props_empty {} =
       Inr \<lparr>el_className = default '''' (className props_empty),
            el_children = renderParts (default True (showRemoved props_empty))
              (default True (animateChanges props_empty)) {} 0 (compute '''' ''hello'' words)\<rparr>"
proof -
  note h1 = string_texts_render [where lib = spec_lib and p = props_null and e = TypeError
      and rp = "{}"]
  note h2 = string_texts_render [where lib = spec_lib and p = props_empty and rp = "{}"
      and cs = "compute '''' ''hello'' words"]
  have a: "diffFunction spec_lib (default words (diffMode props_null)) (oldText props_null)
     (newText props_null) = Inl TypeError"
    by (simp add: props_null_def default_def diffFunction_def spec_lib_def spec_diff_def)
  have b: "diffFunction spec_lib (default words (diffMode props_empty)) (oldText props_empty)
       (newText props_empty) = Inr (compute '''' ''hello'' words)"
    by (simp add: props_empty_def default_def diffFunction_def spec_lib_def spec_diff_def)
  from h1 h2 a b show ?thesis by blast
qed

text \<open>
  With \<^verbatim>\<open>oldText\<close> undefined the render fails with the error of the diff function; with
  the empty string in its place it shows one added segment.
\<close>

theorem null_text_counterexample:
  "DiffText spec_lib props_null {} = Inl TypeError
   \<and> DiffText spec_lib props_empty {} =
       Inr \<lparr>el_className = '''',
            el_children = [Some (TypewriterText_el ''added-0'' ''hello'' ''rgb(34, 197, 94)''
                                   ''rgba(34, 197, 94, 0.15)'')]\<rparr>"
  by (simp add: DiffText_def props_null_def props_empty_def default_def diffFunction_def spec_lib_def
      spec_diff_def compute_def tokenize_def cclass_of_def mk_change_def renderPart_def)

section \<open>Each callback is called at most once\<close>




lemma fade_indices_advance [simp]: "fade_indices (advance_animators dt s) = fade_indices s"
  by (simp add: fade_indices_def advance_animators_def o_def)






section \<open>Each callback is called once\<close>

lemma fadeouts_of_effect:
  "list_all (\<lambda>kf. snd (snd kf) = fade_at 0) (fadeouts_of nodes)"
proof (induction nodes)
  case Nil
  show ?case by simp
next
  case (Cons n ns)
  have "list_all (\<lambda>kf. snd (snd kf) = fade_at 0) (fadeout_of n)"
    by (cases n rule: fadeout_of.cases) (simp_all add: FadeOutText_effect_fade_at)
  with Cons show ?case by simp
qed

lemma rendered_fades_renderParts:
  "rendered_fades (renderParts sr an rp i cs)
     = (if sr \<and> an then filter (\<lambda>j. j \<notin> rp) (removed_indices i cs) else [])"
  by (induction cs arbitrary: i) (simp_all add: rendered_fades_def renderPart_def)

lemma rendered_fades_Nil: "rendered_fades nodes = [] \<Longrightarrow> fadeouts_of nodes = []"
  by (simp add: rendered_fades_def)

lemma removed_indices_nth:
  "j \<in> set (removed_indices i cs) \<Longrightarrow> i \<le> j \<and> j - i < length cs \<and> removed (cs ! (j - i))"
proof (induction cs arbitrary: i)
  case Nil
  then show ?case by simp
next
  case (Cons c cs)
  show ?case
  proof (cases "j = i")
    case True
    with Cons.prems have "removed c"
    proof -
      have "i \<notin> set (removed_indices (Suc i) cs)"
        using Cons.IH [of "Suc i"] True by auto
      with Cons.prems True show ?thesis by (auto split: if_splits)
    qed
    with True show ?thesis by simp
  next
    case False
    with Cons.prems have "j \<in> set (removed_indices (Suc i) cs)" by (auto split: if_splits)
    from Cons.IH [OF this] have "Suc i \<le> j" "j - Suc i < length cs" "removed (cs ! (j - Suc i))"
      by simp_all
    then show ?thesis by (simp add: nth_Cons split: nat.splits) (metis Suc_diff_Suc Suc_le_lessD diff_Suc_Suc nat.inject)
  qed
qed


lemma length_renderParts [simp]: "length (renderParts sr an rp i cs) = length cs"
  by (induction cs arbitrary: i) simp_all


lemma fired_by_fading:
  "list_all (\<lambda>f. snd f = fade_at e) fs \<Longrightarrow>
   fired_by dt fs = (if e < 1599/2000 \<and> 1599/2000 \<le> e + max 0 dt then map fst fs else [])"
  by (induction fs) (auto simp: fired_by_def FadeOutText_frame_fade_at)

lemma fired_in_fading:
  assumes "settled s" "fading e s"
  shows "fired_in dt s = (if 1599/2000 \<le> e + max 0 dt then fade_indices s else [])"
proof -
  have l: "list_all (\<lambda>f. snd f = fade_at e) (map snd (fadeouts s))"
    using assms(2) by (simp add: fading_def list_all_iff)
  have e: "e < 1599/2000" using assms(2) by (simp add: fading_def)
  have "fired_in dt s = fired_by dt (map snd (fadeouts s))"
    using assms(1) by (rule settled_fired_in)
  also have "\<dots> = (if 1599/2000 \<le> e + max 0 dt then map fst (map snd (fadeouts s)) else [])"
    using fired_by_fading [OF l, of dt] e by simp
  finally show ?thesis by (simp add: fade_indices_def)
qed

lemma fading_advance:
  assumes "fading e s" "e + max 0 dt < 1599/2000"
  shows "fading (e + max 0 dt) ((advance_animators dt s)\<lparr>removedParts := rp\<rparr>)"
  using assms
  by (auto simp: fading_def advance_animators_def list_all_iff FadeOutText_frame_fade_at)

lemma fading_no_fadeouts: "fadeouts s = [] \<Longrightarrow> fading 0 s"
  by (simp add: fading_def)

lemma fading_rerender: "fading 0 (rerender lib s)"
  by (cases "DiffText lib (props s) (removedParts s)")
     (simp_all add: rerender_def unmount_def fading_def Let_def fadeouts_of_effect)

lemma synced_rerender: "synced lib (rerender lib s)"
  by (cases "DiffText lib (props s) (removedParts s)")
     (simp_all add: rerender_def unmount_def synced_def view_def Let_def fade_indices_def
        rendered_fades_def)

lemma synced_unmounted: "\<not> mounted s \<Longrightarrow> synced lib s"
  by (simp add: synced_def)

lemma synced_advance:
  assumes "synced lib s"
  shows "synced lib ((advance_animators dt s)\<lparr>removedParts := removedParts s\<rparr>)"
proof -
  let ?s = "(advance_animators dt s)\<lparr>removedParts := removedParts s\<rparr>"
  have f: "fade_indices ?s = fade_indices s"
    by (simp add: fade_indices_def advance_animators_def o_def)
  have v: "view lib ?s = view lib s" by (simp add: view_def)
  have m: "mounted ?s = mounted s" by simp
  show ?thesis using assms unfolding synced_def f v m .
qed

lemma synced_fade_indices:
  assumes "synced lib s" "mounted s"
  obtains cs where
    "diffFunction lib (default words (diffMode (props s))) (oldText (props s)) (newText (props s)) = Inr cs"
    "fade_indices s =
       (if default True (showRemoved (props s)) \<and> default True (animateChanges (props s))
        then filter (\<lambda>j. j \<notin> removedParts s) (removed_indices 0 cs) else [])"
proof -
  from assms obtain el where el: "view lib s = Inr el" "fade_indices s = rendered_fades (el_children el)"
    by (auto simp: synced_def split: sum.splits)
  from el(1) obtain cs where cs:
    "diffFunction lib (default words (diffMode (props s))) (oldText (props s)) (newText (props s)) = Inr cs"
    "el_children el = renderParts (default True (showRemoved (props s)))
       (default True (animateChanges (props s))) (removedParts s) 0 cs"
    by (auto simp: view_def DiffText_def split: sum.splits)
  from el(2) cs(2) have "fade_indices s =
       (if default True (showRemoved (props s)) \<and> default True (animateChanges (props s))
        then filter (\<lambda>j. j \<notin> removedParts s) (removed_indices 0 cs) else [])"
    by (simp only: rendered_fades_renderParts)
  with cs(1) show ?thesis by (rule that)
qed

lemma rerender_all_fired:
  assumes "synced lib s" "mounted s"
  shows "fadeouts (rerender lib ((advance_animators dt s)
           \<lparr>removedParts := removedParts s \<union> set (fade_indices s)\<rparr>)) = []"
proof -
  from assms obtain cs where cs:
    "diffFunction lib (default words (diffMode (props s))) (oldText (props s)) (newText (props s)) = Inr cs"
    "fade_indices s =
       (if default True (showRemoved (props s)) \<and> default True (animateChanges (props s))
        then filter (\<lambda>j. j \<notin> removedParts s) (removed_indices 0 cs) else [])"
    by (rule synced_fade_indices)
  let ?sr = "default True (showRemoved (props s))" and ?an = "default True (animateChanges (props s))"
  let ?rp = "removedParts s \<union> set (fade_indices s)"
  have "rendered_fades (renderParts ?sr ?an ?rp 0 cs) = []"
    unfolding rendered_fades_renderParts using cs(2) by (auto simp: filter_empty_conv)
  then have "fadeouts_of (renderParts ?sr ?an ?rp 0 cs) = []" by (rule rendered_fades_Nil)
  then show ?thesis using cs(1) by (simp add: rerender_def DiffText_def Let_def)
qed

lemma step_Frame_fading:
  assumes "settled s" "synced lib s" "fading e s"
  shows "snd (step lib (Frame dt) s) = (if 1599/2000 \<le> e + max 0 dt then fade_indices s else [])
    \<and> synced lib (fst (step lib (Frame dt) s))
    \<and> (if 1599/2000 \<le> e + max 0 dt then fadeouts (fst (step lib (Frame dt) s)) = []
        else fading (e + max 0 dt) (fst (step lib (Frame dt) s)))"
proof -
  note f = fired_in_fading [OF assms(1,3), of dt]
  show ?thesis
  proof (cases "fired_in dt s = []")
    case True
    then have s': "fst (step lib (Frame dt) s) = (advance_animators dt s)\<lparr>removedParts := removedParts s\<rparr>"
      by (simp add: Let_def)
    have sy: "synced lib (fst (step lib (Frame dt) s))"
      unfolding s' using assms(2) by (rule synced_advance)
    have sn: "snd (step lib (Frame dt) s) = []" using True by (simp add: Let_def)
    show ?thesis
    proof (cases "1599/2000 \<le> e + max 0 dt")
      case le: True
      with f True have "fade_indices s = []" by simp
      then have "fadeouts s = []" by (simp add: fade_indices_def)
      then have "fadeouts (fst (step lib (Frame dt) s)) = []"
        unfolding s' by (simp add: advance_animators_def)
      with sy sn le \<open>fade_indices s = []\<close> show ?thesis by simp
    next
      case False
      then have "e + max 0 dt < 1599/2000" by simp
      with assms(3) have "fading (e + max 0 dt) (fst (step lib (Frame dt) s))"
        unfolding s' by (rule fading_advance)
      with sy sn False show ?thesis by simp
    qed
  next
    case False
    with f have le: "1599/2000 \<le> e + max 0 dt" and fi: "fired_in dt s = fade_indices s"
      by (simp_all split: if_splits)
    from False fi have "fadeouts s \<noteq> []" by (auto simp: fade_indices_def)
    with assms(1) have m: "mounted s" by (auto simp: settled_alt)
    have s': "fst (step lib (Frame dt) s) = rerender lib ((advance_animators dt s)
           \<lparr>removedParts := removedParts s \<union> set (fade_indices s)\<rparr>)"
      using False m fi by (simp add: Let_def fold_handleRemoveComplete)
    have "fadeouts (fst (step lib (Frame dt) s)) = []"
      unfolding s' using assms(2) m by (rule rerender_all_fired)
    moreover have "synced lib (fst (step lib (Frame dt) s))"
      unfolding s' by (rule synced_rerender)
    moreover have "snd (step lib (Frame dt) s) = fade_indices s"
      using fi by (simp add: Let_def)
    ultimately show ?thesis using le by simp
  qed
qed


lemma reachable_step:
  assumes "settled s" "synced lib s" "fading e s"
  shows "synced lib (fst (step lib ev s)) \<and> (\<exists>e'. fading e' (fst (step lib ev s)))"
proof (cases "mounted s")
  case False
  with assms(1) have "step lib ev s = (s, [])" by (rule step_unmounted)
  with assms show ?thesis by auto
next
  case True
  show ?thesis
  proof (cases ev)
    case (SetProps p)
    have "fading 0 (rerender lib (s\<lparr>props := p\<rparr>))" by (rule fading_rerender)
    moreover have "synced lib (rerender lib (s\<lparr>props := p\<rparr>))" by (rule synced_rerender)
    ultimately show ?thesis using SetProps True by auto
  next
    case (Frame dt)
    note h = step_Frame_fading [OF assms, of dt]
    show ?thesis
    proof (cases "1599/2000 \<le> e + max 0 dt")
      case le: True
      with h have "fadeouts (fst (step lib (Frame dt) s)) = []" by simp
      then have "fading 0 (fst (step lib (Frame dt) s))" by (rule fading_no_fadeouts)
      with h show ?thesis unfolding Frame by blast
    next
      case False
      with h have "fading (e + max 0 dt) (fst (step lib (Frame dt) s))" by simp
      with h show ?thesis unfolding Frame by blast
    qed
  next
    case Unmount
    have "fadeouts (unmount s) = []" "\<not> mounted (unmount s)" by (simp_all add: unmount_def)
    then have "fading 0 (unmount s)" "synced lib (unmount s)"
      by (simp_all add: fading_no_fadeouts synced_unmounted)
    then show ?thesis using Unmount True by auto
  qed
qed

lemma reachable_run:
  assumes "settled s" "synced lib s" "fading e s"
  shows "synced lib (fst (run lib es s)) \<and> (\<exists>e'. fading e' (fst (run lib es s)))"
  using assms
proof (induction es arbitrary: s e)
  case Nil
  then show ?case by auto
next
  case (Cons ev es)
  from reachable_step [OF Cons.prems, of ev] obtain e' where
    sy: "synced lib (fst (step lib ev s))" and fa: "fading e' (fst (step lib ev s))" by blast
  have st: "settled (fst (step lib ev s))" using Cons.prems(1) by (rule settled_step)
  from Cons.IH [OF st sy fa] show ?case by (simp add: split_beta Let_def del: step.simps)
qed

lemma synced_init: "synced lib (init lib p)"
  unfolding init_def by (rule synced_rerender)

lemma fading_init: "fading 0 (init lib p)"
  unfolding init_def by (rule fading_rerender)

lemma reachable_init:
  "settled (fst (run lib es (init lib p))) \<and> synced lib (fst (run lib es (init lib p)))
   \<and> (\<exists>e. fading e (fst (run lib es (init lib p))))"
  using reachable_run [OF settled_init [of lib p] synced_init [of lib p] fading_init [of lib p], of es]
    settled_run [OF settled_init [of lib p], of lib es]
  by simp



lemma props_step_Frame [simp]: "props (fst (step lib (Frame dt) s)) = props s"
  by (simp add: Let_def)




















section \<open>What the animators show\<close>

lemma typewriters_of_Nil [simp]: "typewriters_of old [] = []"
  by (simp add: typewriters_of_def)

lemma typewriters_of_Cons [simp]:
  "typewriters_of old (n # ns) = typewriter_of old n @ typewriters_of old ns"
  by (simp add: typewriters_of_def)

lemma string_of_nat_inverse:
  "foldl (\<lambda>a c. 10 * a + (of_char c - 48)) (0::nat) (string_of_nat n) = n"
proof (induction n rule: string_of_nat.induct)
  case (1 n)
  show ?case
  proof (cases "n < 10")
    case True
    then show ?thesis by (subst string_of_nat.simps) simp
  next
    case False
    with 1 have ih: "foldl (\<lambda>a c. 10 * a + (of_char c - 48)) (0::nat) (string_of_nat (n div 10)) = n div 10"
      by simp
    have "n mod 10 < 10" by simp
    then have m: "(48 + n mod 10) mod 256 = 48 + n mod 10" by simp
    show ?thesis using False ih by (subst string_of_nat.simps) (simp add: m)
  qed
qed

lemma string_of_nat_inj:
  assumes "string_of_nat m = string_of_nat n"
  shows "m = n"
proof -
  have "foldl (\<lambda>a c. 10 * a + (of_char c - 48)) (0::nat) (string_of_nat m)
      = foldl (\<lambda>a c. 10 * a + (of_char c - 48)) (0::nat) (string_of_nat n)"
    by (simp only: assms)
  then show ?thesis by (simp only: string_of_nat_inverse)
qed

lemma text_prop_mount [simp]: "text_prop (TypewriterText_mount t) = t"
  by (simp add: TypewriterText_mount_def)

lemma text_prop_update [simp]: "text_prop (TypewriterText_update t s) = t"
  by (simp add: TypewriterText_update_def)

lemma text_prop_frame [simp]: "text_prop (TypewriterText_frame dt s) = text_prop s"
  by (simp add: TypewriterText_frame_def onUpdate_def Let_def)

lemma text_prop_frames [simp]: "text_prop (TypewriterText_frames dts s) = text_prop s"
  by (induction dts arbitrary: s) simp_all

lemma TypewriterText_update_same: "TypewriterText_update (text_prop s) s = s"
  by (simp add: TypewriterText_update_def)

lemma typewriter_of_texts:
  "map (\<lambda>kt. (fst kt, text_prop (snd kt))) (typewriter_of old n)
     = map (\<lambda>kt. (fst kt, text_prop (snd kt))) (typewriter_of [] n)"
  by (cases n rule: fadeout_of.cases) (simp_all split: option.splits)

lemma typewriters_of_texts:
  "map (\<lambda>kt. (fst kt, text_prop (snd kt))) (typewriters_of old nodes) = rendered_typewriters nodes"
proof (induction nodes)
  case Nil
  show ?case by (simp add: rendered_typewriters_def)
next
  case (Cons n ns)
  note h = typewriter_of_texts [of old n]
  from Cons h show ?case by (simp add: rendered_typewriters_def)
qed

lemma typewriter_of_kept:
  assumes "\<forall>kt \<in> set (typewriter_of [] n). \<exists>s. map_of old (fst kt) = Some s \<and> text_prop s = text_prop (snd kt)"
  shows "typewriter_of old n = map (\<lambda>kt. (fst kt, the (map_of old (fst kt)))) (typewriter_of [] n)"
proof (cases n rule: fadeout_of.cases)
  case (2 k t c b)
  with assms obtain s where s: "map_of old k = Some s" "text_prop s = t" by auto
  then have "TypewriterText_update t s = s" by (simp add: TypewriterText_update_def)
  with s 2 show ?thesis by simp
qed simp_all

lemma typewriters_of_kept:
  assumes "distinct (map fst old)"
    "map (\<lambda>kt. (fst kt, text_prop (snd kt))) old = rendered_typewriters nodes"
  shows "typewriters_of old nodes = old"
proof -
  have look: "map_of old (fst kt) = Some (snd kt)" if "kt \<in> set old" for kt
    using assms(1) that by simp
  have g: "\<forall>kt \<in> set (typewriters_of [] ns). \<exists>s. map_of old (fst kt) = Some s \<and> text_prop s = text_prop (snd kt)"
    if "set (rendered_typewriters ns) \<subseteq> set (rendered_typewriters nodes)" for ns
  proof
    fix kt assume "kt \<in> set (typewriters_of [] ns)"
    then have "(fst kt, text_prop (snd kt)) \<in> set (rendered_typewriters ns)"
      by (auto simp: rendered_typewriters_def)
    with that have "(fst kt, text_prop (snd kt)) \<in> set (map (\<lambda>kt. (fst kt, text_prop (snd kt))) old)"
      unfolding assms(2) by blast
    then obtain kt' where kt': "kt' \<in> set old" "fst kt' = fst kt" "text_prop (snd kt') = text_prop (snd kt)"
      by auto
    from look [OF kt'(1)] kt'(2,3) show "\<exists>s. map_of old (fst kt) = Some s \<and> text_prop s = text_prop (snd kt)"
      by auto
  qed
  have step: "typewriters_of old ns = map (\<lambda>kt. (fst kt, the (map_of old (fst kt)))) (typewriters_of [] ns)"
    if "set (rendered_typewriters ns) \<subseteq> set (rendered_typewriters nodes)" for ns
    using that
  proof (induction ns)
    case Nil
    show ?case by simp
  next
    case (Cons n ns)
    from Cons.prems have sub: "set (rendered_typewriters ns) \<subseteq> set (rendered_typewriters nodes)"
      by (auto simp: rendered_typewriters_def)
    from g [OF Cons.prems] have "\<forall>kt \<in> set (typewriter_of [] n).
        \<exists>s. map_of old (fst kt) = Some s \<and> text_prop s = text_prop (snd kt)" by simp
    then have "typewriter_of old n = map (\<lambda>kt. (fst kt, the (map_of old (fst kt)))) (typewriter_of [] n)"
      by (rule typewriter_of_kept)
    with Cons.IH [OF sub] show ?case by simp
  qed
  have "typewriters_of old nodes
      = map (\<lambda>kt. (fst kt, the (map_of old (fst kt)))) (typewriters_of [] nodes)"
    by (rule step) simp
  also have "\<dots> = map (\<lambda>kt. (fst kt, the (map_of old (fst kt)))) (rendered_typewriters nodes)"
    by (simp add: rendered_typewriters_def o_def)
  also have "\<dots> = map (\<lambda>kt. (fst kt, the (map_of old (fst kt)))) (map (\<lambda>kt. (fst kt, text_prop (snd kt))) old)"
    by (simp only: assms(2))
  also have "\<dots> = old"
    using look by (simp add: o_def map_idI)
  finally show ?thesis .
qed

lemma rendered_typewriters_Cons:
  "rendered_typewriters (n # ns) = rendered_typewriters [n] @ rendered_typewriters ns"
  by (simp add: rendered_typewriters_def)

lemma rendered_typewriters_renderPart:
  "rendered_typewriters [renderPart sr an rp part i]
     = (if added part \<and> an \<and> \<not> (removed part \<and> i \<in> rp)
        then [(''added-'' @ string_of_nat i, val part)] else [])"
  by (simp add: rendered_typewriters_def renderPart_def)

lemma rendered_typewriters_keys:
  "set (map fst (rendered_typewriters (renderParts sr an rp i cs)))
     \<subseteq> {''added-'' @ string_of_nat j | j. i \<le> j}"
proof (induction cs arbitrary: i)
  case Nil
  show ?case by (simp add: rendered_typewriters_def)
next
  case (Cons c cs)
  from Cons.IH [of "Suc i"] show ?case
    by (subst renderParts.simps, subst rendered_typewriters_Cons)
       (auto simp: rendered_typewriters_renderPart intro: Suc_leD)
qed

lemma rendered_typewriters_distinct:
  "distinct (map fst (rendered_typewriters (renderParts sr an rp i cs)))"
proof (induction cs arbitrary: i)
  case Nil
  show ?case by (simp add: rendered_typewriters_def)
next
  case (Cons c cs)
  have "''added-'' @ string_of_nat i \<notin> set (map fst (rendered_typewriters (renderParts sr an rp (Suc i) cs)))"
  proof
    assume "''added-'' @ string_of_nat i \<in> set (map fst (rendered_typewriters (renderParts sr an rp (Suc i) cs)))"
    with rendered_typewriters_keys [of sr an rp "Suc i" cs]
    obtain j where "''added-'' @ string_of_nat i = ''added-'' @ string_of_nat j" "Suc i \<le> j" by blast
    then have "string_of_nat i = string_of_nat j" by simp
    then have "i = j" by (rule string_of_nat_inj)
    with \<open>Suc i \<le> j\<close> show False by simp
  qed
  note k = this
  have eq: "rendered_typewriters (renderParts sr an rp i (c # cs))
      = rendered_typewriters [renderPart sr an rp c i]
        @ rendered_typewriters (renderParts sr an rp (Suc i) cs)"
    by (subst renderParts.simps, subst rendered_typewriters_Cons) simp
  show ?case
  proof (cases "added c \<and> an \<and> \<not> (removed c \<and> i \<in> rp)")
    case True
    then have "rendered_typewriters [renderPart sr an rp c i] = [(''added-'' @ string_of_nat i, val c)]"
      by (simp add: rendered_typewriters_renderPart)
    with k Cons.IH [of "Suc i"] show ?thesis unfolding eq by simp
  next
    case False
    then have "rendered_typewriters [renderPart sr an rp c i] = []"
      by (auto simp: rendered_typewriters_renderPart)
    with Cons.IH [of "Suc i"] show ?thesis unfolding eq by simp
  qed
qed

lemma removed_indices_ge: "j \<in> set (removed_indices i cs) \<Longrightarrow> i \<le> j"
  using removed_indices_nth by blast

lemma rendered_typewriters_retired:
  assumes "rp \<subseteq> rp'" "\<forall>j. i \<le> j \<and> j \<in> rp' \<and> j \<notin> rp \<longrightarrow> j \<in> set (removed_indices i cs)"
  shows "rendered_typewriters (renderParts sr an rp' i cs)
           = rendered_typewriters (renderParts sr an rp i cs)"
  using assms(2)
proof (induction cs arbitrary: i)
  case Nil
  show ?case by simp
next
  case (Cons c cs)
  have tl: "\<forall>j. Suc i \<le> j \<and> j \<in> rp' \<and> j \<notin> rp \<longrightarrow> j \<in> set (removed_indices (Suc i) cs)"
  proof (intro allI impI)
    fix j assume j: "Suc i \<le> j \<and> j \<in> rp' \<and> j \<notin> rp"
    then have "i \<le> j \<and> j \<in> rp' \<and> j \<notin> rp" by simp
    with Cons.prems have "j \<in> set (removed_indices i (c # cs))" by blast
    moreover from j have "j \<noteq> i" by simp
    ultimately show "j \<in> set (removed_indices (Suc i) cs)" by (simp split: if_splits)
  qed
  have hd: "rendered_typewriters [renderPart sr an rp' c i] = rendered_typewriters [renderPart sr an rp c i]"
  proof (cases "i \<in> rp' \<and> i \<notin> rp")
    case True
    then have "i \<le> i \<and> i \<in> rp' \<and> i \<notin> rp" by simp
    with Cons.prems have "i \<in> set (removed_indices i (c # cs))" by blast
    moreover have "i \<notin> set (removed_indices (Suc i) cs)"
      using removed_indices_ge [of i "Suc i" cs] by auto
    ultimately have "\<not> added c" by (auto split: if_splits)
    then show ?thesis by (simp add: rendered_typewriters_renderPart)
  next
    case False
    with assms(1) have "(i \<in> rp') = (i \<in> rp)" by auto
    then show ?thesis by (simp add: rendered_typewriters_renderPart)
  qed
  from Cons.IH [OF tl] hd show ?case
    by (subst (1 2) renderParts.simps, subst (1 2) rendered_typewriters_Cons) simp
qed

lemma typewriters_synced_rerender: "typewriters_synced lib (rerender lib s)"
  by (cases "DiffText lib (props s) (removedParts s)")
     (simp_all add: rerender_def unmount_def typewriters_synced_def view_def Let_def
        typewriters_of_texts)

lemma typewriters_synced_unmounted: "\<not> mounted s \<Longrightarrow> typewriters_synced lib s"
  by (simp add: typewriters_synced_def)

lemma typewriters_advance:
  "typewriters ((advance_animators dt s)\<lparr>removedParts := rp\<rparr>)
     = map (\<lambda>kt. (fst kt, TypewriterText_frame dt (snd kt))) (typewriters s)"
  by (simp add: advance_animators_def)

lemma typewriters_synced_advance:
  assumes "typewriters_synced lib s"
  shows "typewriters_synced lib ((advance_animators dt s)\<lparr>removedParts := removedParts s\<rparr>)"
proof -
  let ?s = "(advance_animators dt s)\<lparr>removedParts := removedParts s\<rparr>"
  have t: "map (\<lambda>kt. (fst kt, text_prop (snd kt))) (typewriters ?s)
      = map (\<lambda>kt. (fst kt, text_prop (snd kt))) (typewriters s)"
    by (simp add: typewriters_advance o_def)
  have v: "view lib ?s = view lib s" by (simp add: view_def)
  have m: "mounted ?s = mounted s" by simp
  show ?thesis using assms unfolding typewriters_synced_def t v m .
qed

lemma step_Frame_typewriters:
  assumes "settled s" "synced lib s" "fading e s" "typewriters_synced lib s"
  shows "typewriters (fst (step lib (Frame dt) s))
           = map (\<lambda>kt. (fst kt, TypewriterText_frame dt (snd kt))) (typewriters s)
    \<and> typewriters_synced lib (fst (step lib (Frame dt) s))"
proof (cases "fired_in dt s = []")
  case True
  then have s': "fst (step lib (Frame dt) s) = (advance_animators dt s)\<lparr>removedParts := removedParts s\<rparr>"
    by (simp add: Let_def)
  show ?thesis unfolding s' using assms(4)
    by (simp only: typewriters_advance typewriters_synced_advance)
next
  case False
  note f = fired_in_fading [OF assms(1,3), of dt]
  from f False have fi: "fired_in dt s = fade_indices s" by (simp split: if_splits)
  from False fi have "fadeouts s \<noteq> []" by (auto simp: fade_indices_def)
  with assms(1) have m: "mounted s" by (auto simp: settled_alt)
  let ?rp = "removedParts s \<union> set (fade_indices s)"
  let ?s1 = "(advance_animators dt s)\<lparr>removedParts := ?rp\<rparr>"
  have s': "fst (step lib (Frame dt) s) = rerender lib ?s1"
    using False m fi by (simp add: Let_def fold_handleRemoveComplete)
  from assms(2) m obtain cs where cs:
    "diffFunction lib (default words (diffMode (props s))) (oldText (props s)) (newText (props s)) = Inr cs"
    "fade_indices s =
       (if default True (showRemoved (props s)) \<and> default True (animateChanges (props s))
        then filter (\<lambda>j. j \<notin> removedParts s) (removed_indices 0 cs) else [])"
    by (rule synced_fade_indices)
  let ?sr = "default True (showRemoved (props s))" and ?an = "default True (animateChanges (props s))"
  have sub: "set (fade_indices s) \<subseteq> set (removed_indices 0 cs)"
    using cs(2) by auto
  have ts: "map (\<lambda>kt. (fst kt, text_prop (snd kt))) (typewriters s)
      = rendered_typewriters (renderParts ?sr ?an (removedParts s) 0 cs)"
    using assms(4) m cs(1) by (simp add: typewriters_synced_def view_def DiffText_def)
  have keep: "rendered_typewriters (renderParts ?sr ?an ?rp 0 cs)
      = rendered_typewriters (renderParts ?sr ?an (removedParts s) 0 cs)"
    by (rule rendered_typewriters_retired) (use sub in auto)
  have t1: "typewriters ?s1 = map (\<lambda>kt. (fst kt, TypewriterText_frame dt (snd kt))) (typewriters s)"
    by (rule typewriters_advance)
  have ts1: "map (\<lambda>kt. (fst kt, text_prop (snd kt))) (typewriters ?s1)
      = rendered_typewriters (renderParts ?sr ?an ?rp 0 cs)"
    unfolding keep ts [symmetric] t1 by (simp add: o_def)
  have "map fst (typewriters ?s1) = map fst (rendered_typewriters (renderParts ?sr ?an ?rp 0 cs))"
    unfolding ts1 [symmetric] by (simp add: o_def)
  then have d: "distinct (map fst (typewriters ?s1))"
    by (simp only: rendered_typewriters_distinct)
  have k: "typewriters_of (typewriters ?s1) (renderParts ?sr ?an ?rp 0 cs) = typewriters ?s1"
    using d ts1 by (rule typewriters_of_kept)
  have "typewriters (rerender lib ?s1) = typewriters_of (typewriters ?s1) (renderParts ?sr ?an ?rp 0 cs)"
    using cs(1) by (simp add: rerender_def DiffText_def Let_def)
  then have "typewriters (rerender lib ?s1) = typewriters ?s1" by (simp only: k)
  then show ?thesis unfolding s' by (simp only: t1 typewriters_synced_rerender)
qed

lemma run_frames_typewriters:
  assumes "settled s" "synced lib s" "fading e s" "typewriters_synced lib s"
  shows "typewriters (fst (run lib (map Frame dts) s))
           = map (\<lambda>kt. (fst kt, TypewriterText_frames dts (snd kt))) (typewriters s)"
  using assms
proof (induction dts arbitrary: s e)
  case Nil
  show ?case by simp
next
  case (Cons dt dts)
  let ?s = "fst (step lib (Frame dt) s)"
  note h = step_Frame_typewriters [OF Cons.prems, of dt]
  have st: "settled ?s" using Cons.prems(1) by (rule settled_step)
  from reachable_step [OF Cons.prems(1,2,3), of "Frame dt"] obtain e' where
    sy: "synced lib ?s" and fa: "fading e' ?s" by blast
  from h have ty: "typewriters_synced lib ?s" by simp
  from Cons.IH [OF st sy fa ty] h show ?case
    by (simp add: split_beta Let_def o_def del: step.simps)
qed

lemma typewriters_step:
  assumes "settled s" "synced lib s" "fading e s" "typewriters_synced lib s"
  shows "typewriters_synced lib (fst (step lib ev s))"
proof (cases "mounted s")
  case False
  with assms(1) have "step lib ev s = (s, [])" by (rule step_unmounted)
  with assms(4) show ?thesis by simp
next
  case True
  show ?thesis
  proof (cases ev)
    case (SetProps p)
    with True show ?thesis by (simp add: typewriters_synced_rerender)
  next
    case (Frame dt)
    from step_Frame_typewriters [OF assms, of dt] show ?thesis unfolding Frame by simp
  next
    case Unmount
    have "\<not> mounted (unmount s)" by (simp add: unmount_def)
    then have "typewriters_synced lib (unmount s)" by (rule typewriters_synced_unmounted)
    with Unmount True show ?thesis by simp
  qed
qed

lemma typewriters_run:
  assumes "settled s" "synced lib s" "fading e s" "typewriters_synced lib s"
  shows "typewriters_synced lib (fst (run lib es s))"
  using assms
proof (induction es arbitrary: s e)
  case Nil
  then show ?case by simp
next
  case (Cons ev es)
  let ?s = "fst (step lib ev s)"
  have st: "settled ?s" using Cons.prems(1) by (rule settled_step)
  from reachable_step [OF Cons.prems(1,2,3), of ev] obtain e' where
    sy: "synced lib ?s" and fa: "fading e' ?s" by blast
  have ty: "typewriters_synced lib ?s" using Cons.prems by (rule typewriters_step)
  from Cons.IH [OF st sy fa ty] show ?case by (simp add: split_beta Let_def del: step.simps)
qed

lemma typewriters_synced_init: "typewriters_synced lib (init lib p)"
  unfolding init_def by (rule typewriters_synced_rerender)

lemma typewriters_reachable: "typewriters_synced lib (fst (run lib es (init lib p)))"
  using settled_init synced_init fading_init typewriters_synced_init by (rule typewriters_run)

lemma typewriters_reachable_frames:
  "typewriters (fst (run lib (map Frame dts) (fst (run lib es (init lib p)))))
     = map (\<lambda>kt. (fst kt, TypewriterText_frames dts (snd kt)))
         (typewriters (fst (run lib es (init lib p))))"
proof -
  let ?s = "fst (run lib es (init lib p))"
  from reachable_init [of lib es p] obtain e where
    s: "settled ?s" "synced lib ?s" "fading e ?s" by blast
  from s typewriters_reachable show ?thesis by (rule run_frames_typewriters)
qed

lemma typewriters_reachable_texts:
  assumes "mounted (fst (run lib es (init lib p)))" "view lib (fst (run lib es (init lib p))) = Inr el"
  shows "map (\<lambda>kt. (fst kt, text_prop (snd kt))) (typewriters (fst (run lib es (init lib p))))
           = rendered_typewriters (el_children el)"
  using typewriters_reachable [of lib es p] assms by (simp add: typewriters_synced_def)

lemma typewriter_of_fresh:
  "list_all (\<lambda>kt. snd kt = TypewriterText_mount (text_prop (snd kt))) (typewriter_of [] n)"
  by (cases n rule: fadeout_of.cases) simp_all

lemma typewriters_of_fresh:
  "list_all (\<lambda>kt. snd kt = TypewriterText_mount (text_prop (snd kt))) (typewriters_of [] nodes)"
  by (induction nodes) (simp_all add: typewriter_of_fresh)

lemma init_frames_shown:
  assumes "DiffText lib p {} = Inr el"
  shows "typewriter_texts (fst (run lib (map Frame dts) (init lib p)))
           = map (\<lambda>kt. (fst kt, snd kt, shown (snd kt) (total dts)))
               (rendered_typewriters (el_children el))"
proof -
  have ti: "typewriters (init lib p) = typewriters_of [] (el_children el)"
    using assms by (simp add: init_def rerender_def Let_def)
  have "typewriters (fst (run lib (map Frame dts) (init lib p)))
      = map (\<lambda>kt. (fst kt, TypewriterText_frames dts (snd kt))) (typewriters (init lib p))"
    using typewriters_reachable_frames [of lib dts "[]" p] by simp
  then have "typewriter_texts (fst (run lib (map Frame dts) (init lib p)))
      = map (\<lambda>kt. (fst kt, text_prop (snd kt), motionText (TypewriterText_frames dts (snd kt))))
          (typewriters_of [] (el_children el))"
    by (simp add: typewriter_texts_def ti o_def)
  also have "\<dots> = map (\<lambda>kt. (fst kt, text_prop (snd kt), shown (text_prop (snd kt)) (total dts)))
          (typewriters_of [] (el_children el))"
  proof (rule map_cong [OF refl])
    fix kt assume "kt \<in> set (typewriters_of [] (el_children el))"
    with typewriters_of_fresh [of "el_children el"]
    have "snd kt = TypewriterText_mount (text_prop (snd kt))" by (simp add: list_all_iff)
    then have "motionText (TypewriterText_frames dts (snd kt))
        = motionText (TypewriterText_frames dts (TypewriterText_mount (text_prop (snd kt))))"
      by simp
    then show "(fst kt, text_prop (snd kt), motionText (TypewriterText_frames dts (snd kt)))
        = (fst kt, text_prop (snd kt), shown (text_prop (snd kt)) (total dts))"
      by (simp only: TypewriterText_mount_shown)
  qed
  also have "\<dots> = map (\<lambda>kt. (fst kt, snd kt, shown (snd kt) (total dts)))
               (rendered_typewriters (el_children el))"
    by (simp add: rendered_typewriters_def o_def)
  finally show ?thesis .
qed

lemma view_empty: "DiffText spec_lib props_empty rp =
   Inr \<lparr>el_className = '''',
        el_children = [Some (TypewriterText_el ''added-0'' ''hello'' ''rgb(34, 197, 94)''
                               ''rgba(34, 197, 94, 0.15)'')]\<rparr>"
  by (simp add: DiffText_def props_empty_def default_def diffFunction_def spec_lib_def
      spec_diff_def compute_def tokenize_def cclass_of_def mk_change_def renderPart_def)

lemma view_hello: "DiffText spec_lib props_hello rp =
   Inr \<lparr>el_className = '''',
        el_children = [Some (TypewriterText_el ''added-0'' ''hello '' ''rgb(34, 197, 94)''
                               ''rgba(34, 197, 94, 0.15)'')]\<rparr>"
  by (simp add: DiffText_def props_hello_def default_def diffFunction_def spec_lib_def
      spec_diff_def compute_def tokenize_def cclass_of_def mk_change_def renderPart_def)

lemma view_goodbye: "DiffText spec_lib props_goodbye rp =
   Inr \<lparr>el_className = '''',
        el_children = [Some (TypewriterText_el ''added-0'' ''goodbye'' ''rgb(34, 197, 94)''
                               ''rgba(34, 197, 94, 0.15)'')]\<rparr>"
  by (simp add: DiffText_def props_goodbye_def default_def diffFunction_def spec_lib_def
      spec_diff_def compute_def tokenize_def cclass_of_def mk_change_def renderPart_def)

lemma init_hello:
  "init spec_lib props_hello =
     \<lparr>props = props_hello, removedParts = {},
      typewriters = [(''added-0'', TypewriterText_mount ''hello '')], fadeouts = [],
      detached_typewriters = [], detached_fadeouts = [], mounted = True\<rparr>"
  by (simp add: init_def rerender_def view_hello Let_def cleaned_typewriters_def cleaned_fadeouts_def)

lemma step_Frame_no_fadeouts:
  "settled s \<Longrightarrow> fadeouts s = [] \<Longrightarrow>
   step lib (Frame dt) s = ((advance_animators dt s)\<lparr>removedParts := removedParts s\<rparr>, [])"
  by (simp add: settled_fired_in Let_def)

lemma shown_hello: "shown ''hello '' (1/2) = ''hello ''"
  by (rule shown_full) (simp_all add: reveal_duration_short)

lemma double_half: "double (1/2) = 1/2"
  using double_dyadic [of 1 1] by simp

lemma double_7_2: "double (7/2) = 7/2"
  using double_dyadic [of 7 1] by simp

lemma progress_reveal_at:
  "progress (reveal_at t T) =
     (if js_round (1000 * T) \<le> 0 then 0
      else if milliseconds (reveal_duration (length t)) \<le> of_int (js_round (1000 * T)) then 1
      else js_divide (of_int (js_round (1000 * T))) (milliseconds (reveal_duration (length t))))"
  by (simp add: progress_def finished_reveal_at) (simp add: reveal_at_def)

lemma shown_goodbye: "shown ''goodbye'' (1/4) = ''good''"
proof -
  have d: "reveal_duration (length ''goodbye'') = 1/2" by (rule reveal_duration_short) simp
  have r: "js_round (1000 * (1/4)) = 250" by (simp add: js_round_def)
  have p: "progress (reveal_at ''goodbye'' (1/4)) = 1/2"
    by (simp only: progress_reveal_at d r) (simp add: js_divide_def double_half)
  have "animated (real (length ''goodbye'')) (reveal_at ''goodbye'' (1/4)) = 7/2"
    unfolding animated_def p by (simp add: js_times_def double_7_2)
  then have "shown ''goodbye'' (1/4) = take (nat \<lceil>7/2 :: real\<rceil>) ''goodbye''"
    by (simp only: shown_def)
  moreover have "\<lceil>7/2 :: real\<rceil> = 4" by (simp add: ceiling_eq_iff)
  ultimately show ?thesis by simp
qed

lemma double_7_100: "double (7/100) = 5044031582654956 / 2 ^ 56"
proof -
  have "double (7/100) = of_int (round_even ((7/100) / 2 powr of_int (- 4 - 52))) * 2 powr of_int (- 4 - 52)"
    by (rule double_eval) (simp_all add: powr_minus_divide)
  also have "(7/100) / (2::real) powr of_int (- 4 - 52) = 126100789566373888 / 25"
    by (simp add: powr_minus_divide)
  also have "round_even (126100789566373888 / 25) = 5044031582654956"
    by (simp add: round_even_def Let_def)
  finally show ?thesis by (simp add: powr_minus_divide)
qed

lemma double_700: "double (100 * (5044031582654956 / 2 ^ 56)) = 7881299347898369 / 2 ^ 50"
proof -
  let ?x = "100 * (5044031582654956 / 2 ^ 56 :: real)"
  have "double ?x = of_int (round_even (?x / 2 powr of_int (2 - 52))) * 2 powr of_int (2 - 52)"
    by (rule double_eval) (simp_all add: powr_minus_divide)
  also have "?x / (2::real) powr of_int (2 - 52) = 31525197391593475 / 4"
    by (simp add: powr_minus_divide)
  also have "round_even (31525197391593475 / 4) = 7881299347898369"
    by (simp add: round_even_def Let_def)
  finally show ?thesis by (simp add: powr_minus_divide)
qed

lemma shown_105: "shown (replicate 100 CHR ''x'') (105/1000) = replicate 8 CHR ''x''"
proof -
  let ?t = "replicate 100 CHR ''x''"
  have d: "reveal_duration (length ?t) = 3/2" by (rule reveal_duration_long) simp
  have r: "js_round (1000 * (105/1000)) = 105" by (simp add: js_round_def)
  have p: "progress (reveal_at ?t (105/1000)) = 5044031582654956 / 2 ^ 56"
    by (simp only: progress_reveal_at d r) (simp add: js_divide_def double_7_100)
  have l: "real (length ?t) = 100" by simp
  have "animated (real (length ?t)) (reveal_at ?t (105/1000)) = 7881299347898369 / 2 ^ 50"
    unfolding animated_def p l js_times_def by (rule double_700)
  then have "shown ?t (105/1000) = take (nat \<lceil>7881299347898369 / 2 ^ 50 :: real\<rceil>) ?t"
    by (simp only: shown_def)
  moreover have "\<lceil>7881299347898369 / 2 ^ 50 :: real\<rceil> = 8" by (simp add: ceiling_eq_iff)
  ultimately show ?thesis by (simp add: min_def)
qed

lemma restart_hello:
  "typewriters (fst (run spec_lib [Frame (1/2)] (init spec_lib props_hello)))
     = [(''added-0'', TypewriterText_frames [1/2] (TypewriterText_mount ''hello ''))]
   \<and> mounted (fst (run spec_lib [Frame (1/2)] (init spec_lib props_hello)))
   \<and> typewriters (fst (run spec_lib [Frame (1/2), SetProps props_goodbye] (init spec_lib props_hello)))
     = [(''added-0'', TypewriterText_update ''goodbye''
          (TypewriterText_frames [1/2] (TypewriterText_mount ''hello '')))]
   \<and> props (fst (run spec_lib [Frame (1/2), SetProps props_goodbye] (init spec_lib props_hello)))
     = props_goodbye
   \<and> removedParts (fst (run spec_lib [Frame (1/2), SetProps props_goodbye] (init spec_lib props_hello)))
     = {}"
proof -
  have st: "settled (init spec_lib props_hello)" by (rule settled_init)
  have fo: "fadeouts (init spec_lib props_hello) = []" by (simp add: init_hello)
  have s1: "step spec_lib (Frame (1/2)) (init spec_lib props_hello)
      = ((advance_animators (1/2) (init spec_lib props_hello))\<lparr>removedParts := {}\<rparr>, [])"
    using step_Frame_no_fadeouts [OF st fo, of spec_lib "1/2"] by simp
  have t1: "typewriters ((advance_animators (1/2) (init spec_lib props_hello))\<lparr>removedParts := {}\<rparr>)
      = [(''added-0'', TypewriterText_frames [1/2] (TypewriterText_mount ''hello ''))]"
    by (simp add: typewriters_advance init_hello)
  have m1: "mounted ((advance_animators (1/2) (init spec_lib props_hello))\<lparr>removedParts := {}\<rparr>)"
    by (simp add: init_hello)
  have t2: "typewriters (rerender spec_lib (s\<lparr>props := props_goodbye\<rparr>))
      = [(''added-0'', TypewriterText_update ''goodbye'' x)]"
    if "typewriters s = [(''added-0'', x)]" for s x
    using that by (simp add: rerender_def view_goodbye Let_def)
  show ?thesis
    using t1 m1 t2 [OF t1] by (simp add: s1 del: step.simps(3))
qed

text \<open>
  C5, as amended.  In every state the component reaches, the mounted \<^verbatim>\<open>TypewriterText\<close>
  animators are those of the \<^verbatim>\<open>TypewriterText\<close> elements of its render, each with the
  text of its element, and frames move each of them on and do nothing else to
  them.  In a component that has seen nothing but frames since its first render,
  every animator shows the string \<open>shown\<close> of its text and the time the frames took:
  the first \<^verbatim>\<open>Math.ceil(latest)\<close> characters, where \<^verbatim>\<open>latest\<close> is the double nearest to the
  length times the progress, and the progress is 0 until the first millisecond, 1
  from the duration on and in between the double nearest to the quotient of the
  time, rounded to a whole millisecond, and the duration in milliseconds.  The
  duration is \<^verbatim>\<open>Math.max(0.5, Math.min(1.5, text.length * 0.04))\<close> in doubles, which is
  1.5 s for 100 characters and 0.5 s for 5.  The number of characters shown does
  not decrease as time goes on, and the whole text is shown once the duration has
  elapsed.  A render with the same text leaves an animator as it is; a render with
  another text leaves the string it shows as it is and starts a new animation, so
  that from the next frame on the animator shows \<open>shown\<close> of the new text and the
  time since that render.
\<close>

theorem typewriter_reveal:
  "(mounted (fst (run lib es (init lib p))) \<and> view lib (fst (run lib es (init lib p))) = Inr el \<longrightarrow>
      map (\<lambda>kt. (fst kt, text_prop (snd kt))) (typewriters (fst (run lib es (init lib p))))
        = rendered_typewriters (el_children el))
   \<and> typewriters (fst (run lib (map Frame dts) (fst (run lib es (init lib p)))))
       = map (\<lambda>kt. (fst kt, TypewriterText_frames dts (snd kt))) (typewriters (fst (run lib es (init lib p))))
   \<and> (DiffText lib p {} = Inr el' \<longrightarrow>
        typewriter_texts (fst (run lib (map Frame dts) (init lib p)))
          = map (\<lambda>kt. (fst kt, snd kt, shown (snd kt) (total dts)))
              (rendered_typewriters (el_children el')))
   \<and> motionText (TypewriterText_frames dts (TypewriterText_mount t)) = shown t (total dts)
   \<and> TypewriterText_update (text_prop s) s = s
   \<and> (text_prop s \<noteq> t \<longrightarrow>
        motionText (TypewriterText_update t s) = motionText s
        \<and> motionText (TypewriterText_frames (dt # dts) (TypewriterText_update t s))
            = shown t (total (dt # dts)))
   \<and> shown t T = take (nat \<lceil>js_times (real (length t)) (progress (reveal_at t T))\<rceil>) t
   \<and> progress (reveal_at t T) =
       (if js_round (1000 * T) \<le> 0 then 0
        else if milliseconds (reveal_duration (length t)) \<le> of_int (js_round (1000 * T)) then 1
        else js_divide (of_int (js_round (1000 * T))) (milliseconds (reveal_duration (length t))))
   \<and> reveal_duration (length t) = max (1/2) (min (3/2) (js_times (real (length t)) (double (4/100))))
   \<and> (length t = 100 \<longrightarrow> reveal_duration (length t) = 3/2)
   \<and> (length t = 5 \<longrightarrow> reveal_duration (length t) = 1/2)
   \<and> (T \<le> T' \<longrightarrow> length (shown t T) \<le> length (shown t T'))
   \<and> (length t < 2 ^ 53 \<and> reveal_duration (length t) \<le> T \<longrightarrow> shown t T = t)"
proof -
  have a: "map (\<lambda>kt. (fst kt, text_prop (snd kt))) (typewriters (fst (run lib es (init lib p))))
        = rendered_typewriters (el_children el)"
    if "mounted (fst (run lib es (init lib p)))" "view lib (fst (run lib es (init lib p))) = Inr el"
    using that by (rule typewriters_reachable_texts)
  have b: "typewriters (fst (run lib (map Frame dts) (fst (run lib es (init lib p)))))
       = map (\<lambda>kt. (fst kt, TypewriterText_frames dts (snd kt))) (typewriters (fst (run lib es (init lib p))))"
    by (rule typewriters_reachable_frames)
  have c: "typewriter_texts (fst (run lib (map Frame dts) (init lib p)))
          = map (\<lambda>kt. (fst kt, snd kt, shown (snd kt) (total dts)))
              (rendered_typewriters (el_children el'))"
    if "DiffText lib p {} = Inr el'"
    using that by (rule init_frames_shown)
  have d: "motionText (TypewriterText_frames dts (TypewriterText_mount t)) = shown t (total dts)"
    by (rule TypewriterText_mount_shown)
  have e: "TypewriterText_update (text_prop s) s = s"
    by (rule TypewriterText_update_same)
  have f: "motionText (TypewriterText_update t s) = motionText s
        \<and> motionText (TypewriterText_frames (dt # dts) (TypewriterText_update t s))
            = shown t (total (dt # dts))"
    if "text_prop s \<noteq> t"
    using that TypewriterText_update_shown [OF that, of dt dts]
    by (simp add: TypewriterText_update_def)
  have g: "shown t T = take (nat \<lceil>js_times (real (length t)) (progress (reveal_at t T))\<rceil>) t"
    by (simp only: shown_def animated_def)
  note h = progress_reveal_at [of t T]
  have i: "reveal_duration (length t) = max (1/2) (min (3/2) (js_times (real (length t)) (double (4/100))))"
    by (simp only: reveal_duration_def)
  have j: "reveal_duration (length t) = 3/2" if "length t = 100"
    by (rule reveal_duration_long) (simp add: that)
  have k: "reveal_duration (length t) = 1/2" if "length t = 5"
    by (rule reveal_duration_short) (simp add: that)
  have l: "length (shown t T) \<le> length (shown t T')" if "T \<le> T'"
    using that by (rule length_shown_mono)
  have m: "shown t T = t" if "length t < 2 ^ 53" "reveal_duration (length t) \<le> T"
    using that by (rule shown_full)
  from a b c d e f g h i j k l m show ?thesis by blast
qed

theorem typewriter_reveal_witness:
  "mounted (fst (run spec_lib [] (init spec_lib props_empty)))
   \<and> view spec_lib (fst (run spec_lib [] (init spec_lib props_empty)))
       = Inr \<lparr>el_className = '''',
              el_children = [Some (TypewriterText_el ''added-0'' ''hello'' ''rgb(34, 197, 94)''
                                     ''rgba(34, 197, 94, 0.15)'')]\<rparr>
   \<and> map (\<lambda>kt. (fst kt, text_prop (snd kt)))
         (typewriters (fst (run spec_lib [] (init spec_lib props_empty))))
       = [(''added-0'', ''hello'')]
   \<and> DiffText spec_lib props_empty {}
       = Inr \<lparr>el_className = '''',
              el_children = [Some (TypewriterText_el ''added-0'' ''hello'' ''rgb(34, 197, 94)''
                                     ''rgba(34, 197, 94, 0.15)'')]\<rparr>
   \<and> typewriter_texts (fst (run spec_lib (map Frame [1/4, 1/4]) (init spec_lib props_empty)))
       = [(''added-0'', ''hello'', ''hello'')]
   \<and> text_prop (TypewriterText_mount ''hi'') \<noteq> ''hello''
   \<and> motionText (TypewriterText_update ''hello'' (TypewriterText_mount ''hi'')) = ''''
   \<and> length ''hello'' = 5 \<and> reveal_duration (length ''hello'') = 1/2
   \<and> length (replicate 100 CHR ''x'') = 100
   \<and> reveal_duration (length (replicate 100 CHR ''x'')) = 3/2
   \<and> (1/2 :: real) \<le> 1 \<and> length (shown ''hello'' (1/2)) \<le> length (shown ''hello'' 1)
   \<and> length ''hello'' < 2 ^ 53 \<and> reveal_duration (length ''hello'') \<le> 1/2
   \<and> shown ''hello'' (1/2) = ''hello''"
proof -
  let ?el = "\<lparr>el_className = '''',
      el_children = [Some (TypewriterText_el ''added-0'' ''hello'' ''rgb(34, 197, 94)''
                             ''rgba(34, 197, 94, 0.15)'')]\<rparr>"
  note h1 = typewriter_reveal [where lib = spec_lib and p = props_empty and es = "[]"
      and el = ?el and el' = ?el and dts = "[1/4, 1/4]" and t = "''hello''"
      and s = "TypewriterText_mount ''hi''" and T = "1/2" and T' = 1]
  note h2 = typewriter_reveal [where lib = spec_lib and p = props_empty and es = "[]"
      and t = "replicate 100 CHR ''x''"]
  have m: "mounted (fst (run spec_lib [] (init spec_lib props_empty)))"
    by (simp add: init_def rerender_def view_empty Let_def)
  have v: "view spec_lib (fst (run spec_lib [] (init spec_lib props_empty))) = Inr ?el"
    by (simp add: view_def view_empty)
  have r: "rendered_typewriters (el_children ?el) = [(''added-0'', ''hello'')]"
    by (simp add: rendered_typewriters_def)
  from h1 m v have "map (\<lambda>kt. (fst kt, text_prop (snd kt)))
         (typewriters (fst (run spec_lib [] (init spec_lib props_empty))))
       = rendered_typewriters (el_children ?el)" by blast
  then have ty: "map (\<lambda>kt. (fst kt, text_prop (snd kt)))
         (typewriters (fst (run spec_lib [] (init spec_lib props_empty))))
       = [(''added-0'', ''hello'')]" by (simp only: r)
  have dv: "DiffText spec_lib props_empty {} = Inr ?el" by (rule view_empty)
  have l5: "length ''hello'' = 5" by simp
  from h1 l5 have d5: "reveal_duration (length ''hello'') = 1/2" by blast
  have lt: "length ''hello'' < 2 ^ 53" by simp
  from d5 have dl: "reveal_duration (length ''hello'') \<le> 1/2" by simp
  from h1 lt dl have full: "shown ''hello'' (1/2) = ''hello''" by blast
  have tot: "total [1/4, 1/4] = 1/2" by simp
  from h1 dv have "typewriter_texts (fst (run spec_lib (map Frame [1/4, 1/4]) (init spec_lib props_empty)))
       = map (\<lambda>kt. (fst kt, snd kt, shown (snd kt) (total [1/4, 1/4])))
           (rendered_typewriters (el_children ?el))" by blast
  then have tx: "typewriter_texts (fst (run spec_lib (map Frame [1/4, 1/4]) (init spec_lib props_empty)))
       = [(''added-0'', ''hello'', ''hello'')]"
    by (simp only: r tot) (simp add: full)
  have ne: "text_prop (TypewriterText_mount ''hi'') \<noteq> ''hello''" by simp
  from h1 ne have "motionText (TypewriterText_update ''hello'' (TypewriterText_mount ''hi''))
      = motionText (TypewriterText_mount ''hi'')" by blast
  then have up: "motionText (TypewriterText_update ''hello'' (TypewriterText_mount ''hi'')) = ''''"
    by (simp add: TypewriterText_mount_def)
  have l100: "length (replicate 100 CHR ''x'') = 100" by simp
  from h2 l100 have d100: "reveal_duration (length (replicate 100 CHR ''x'')) = 3/2" by blast
  have le: "(1/2 :: real) \<le> 1" by simp
  from h1 le have mono: "length (shown ''hello'' (1/2)) \<le> length (shown ''hello'' 1)" by blast
  from m v ty dv tx ne up l5 d5 l100 d100 le mono lt dl full show ?thesis by blast
qed

text \<open>
  The component shows the added "hello " in full; the props change and the segment
  under the same key is now "goodbye".  The animator keeps the string "hello ",
  which is no prefix of its text, and after the next frame it shows "good", four
  characters after six.  In doubles, \<^verbatim>\<open>35 * 0.04\<close> is above 1.4, and 105 ms into the
  reveal of 100 characters, whose progress is 7/100, eight characters are shown.
\<close>

theorem typewriter_restart_counterexample:
  "typewriter_texts (fst (run spec_lib [Frame (1/2)] (init spec_lib props_hello)))
     = [(''added-0'', ''hello '', ''hello '')]
   \<and> view spec_lib (fst (run spec_lib [Frame (1/2), SetProps props_goodbye] (init spec_lib props_hello)))
       = Inr \<lparr>el_className = '''',
              el_children = [Some (TypewriterText_el ''added-0'' ''goodbye'' ''rgb(34, 197, 94)''
                                     ''rgba(34, 197, 94, 0.15)'')]\<rparr>
   \<and> typewriter_texts (fst (run spec_lib [Frame (1/2), SetProps props_goodbye] (init spec_lib props_hello)))
       = [(''added-0'', ''goodbye'', ''hello '')]
   \<and> typewriter_texts
       (fst (run spec_lib [Frame (1/2), SetProps props_goodbye, Frame (1/4)] (init spec_lib props_hello)))
       = [(''added-0'', ''goodbye'', ''good'')]
   \<and> reveal_duration 35 = 6305039478318695 / 2 ^ 52
   \<and> max (1/2) (min (3/2) (35 * (4/100))) < reveal_duration 35
   \<and> motionText (TypewriterText_frames [105/1000] (TypewriterText_mount (replicate 100 CHR ''x'')))
       = replicate 8 CHR ''x''
   \<and> \<lceil>(105/1000) / (3/2) * 100 :: real\<rceil> = 7"
proof -
  let ?x = "TypewriterText_frames [1/2] (TypewriterText_mount ''hello '')"
  note r = restart_hello
  have mx: "motionText ?x = ''hello ''"
    using TypewriterText_mount_shown [of "[1/2]" "''hello ''"] by (simp add: shown_hello)
  have tx: "text_prop ?x = ''hello ''" by (simp only: text_prop_frames text_prop_mount)
  have a: "typewriter_texts (fst (run spec_lib [Frame (1/2)] (init spec_lib props_hello)))
     = [(''added-0'', ''hello '', ''hello '')]"
    using r mx tx by (simp add: typewriter_texts_def)
  have b: "view spec_lib (fst (run spec_lib [Frame (1/2), SetProps props_goodbye] (init spec_lib props_hello)))
       = Inr \<lparr>el_className = '''',
              el_children = [Some (TypewriterText_el ''added-0'' ''goodbye'' ''rgb(34, 197, 94)''
                                     ''rgba(34, 197, 94, 0.15)'')]\<rparr>"
    using r by (simp add: view_def view_goodbye)
  have ne: "text_prop ?x \<noteq> ''goodbye''" by (simp only: tx) simp
  have mu: "motionText (TypewriterText_update ''goodbye'' ?x) = ''hello ''"
    using ne mx by (simp add: TypewriterText_update_def)
  have c: "typewriter_texts (fst (run spec_lib [Frame (1/2), SetProps props_goodbye] (init spec_lib props_hello)))
       = [(''added-0'', ''goodbye'', ''hello '')]"
    using r mu by (simp add: typewriter_texts_def del: TypewriterText_frames.simps)
  have "typewriters (fst (run spec_lib (map Frame [1/4])
          (fst (run spec_lib [Frame (1/2), SetProps props_goodbye] (init spec_lib props_hello)))))
      = [(''added-0'', TypewriterText_frames [1/4] (TypewriterText_update ''goodbye'' ?x))]"
    using r by (simp only: typewriters_reachable_frames) simp
  moreover have "run spec_lib [Frame (1/2), SetProps props_goodbye, Frame (1/4)] (init spec_lib props_hello)
      = run spec_lib ([Frame (1/2), SetProps props_goodbye] @ map Frame [1/4]) (init spec_lib props_hello)"
    by simp
  ultimately have t3: "typewriters
       (fst (run spec_lib [Frame (1/2), SetProps props_goodbye, Frame (1/4)] (init spec_lib props_hello)))
      = [(''added-0'', TypewriterText_frames [1/4] (TypewriterText_update ''goodbye'' ?x))]"
    by (simp only: run_append fst_conv)
  have "motionText (TypewriterText_frames [1/4] (TypewriterText_update ''goodbye'' ?x))
      = shown ''goodbye'' (total [1/4])"
    using ne by (rule TypewriterText_update_shown)
  then have m3: "motionText (TypewriterText_frames [1/4] (TypewriterText_update ''goodbye'' ?x)) = ''good''"
    by (simp add: shown_goodbye)
  have d: "typewriter_texts
       (fst (run spec_lib [Frame (1/2), SetProps props_goodbye, Frame (1/4)] (init spec_lib props_hello)))
       = [(''added-0'', ''goodbye'', ''good'')]"
    unfolding typewriter_texts_def t3 using m3 by (simp del: TypewriterText_frames.simps)
  have e: "reveal_duration 35 = 6305039478318695 / 2 ^ 52" by (rule reveal_duration_35)
  have f: "max (1/2) (min (3/2) (35 * (4/100))) < reveal_duration 35"
    unfolding e by simp
  have g: "motionText (TypewriterText_frames [105/1000] (TypewriterText_mount (replicate 100 CHR ''x'')))
       = replicate 8 CHR ''x''"
  proof -
    have tt: "total [105/1000] = 105/1000" by simp
    show ?thesis by (simp only: TypewriterText_mount_shown tt shown_105)
  qed
  have h: "\<lceil>(105/1000) / (3/2) * 100 :: real\<rceil> = 7" by (simp add: ceiling_eq_iff)
  from a b c d e f g h show ?thesis by blast
qed

end
